theory Spec2Isabelle
  imports Complex_Main "HOL-Library.Sublist"
begin

section \<open>Bytes\<close>

text \<open>
  Go strings and byte slices are sequences of bytes; both are modelled as lists of
  8-bit characters.  \<open>byte\<close> reads a character as a number.  Byte values, code points
  and the values of digit strings are integers.
\<close>

type_synonym bytes = string

definition byte :: "char \<Rightarrow> int" where
  "byte c = of_char c"

definition isSpace :: "char \<Rightarrow> bool" where
  "isSpace c \<longleftrightarrow> c = CHR '' '' \<or> c = CHR 0x09 \<or> c = CHR 0x0D \<or> c = CHR 0x0A"

definition skip_space :: "bytes \<Rightarrow> bytes" where
  "skip_space s = dropWhile isSpace s"

definition isDigit :: "char \<Rightarrow> bool" where
  "isDigit c \<longleftrightarrow> c \<in> set ''0123456789''"

definition isHex :: "char \<Rightarrow> bool" where
  "isHex c \<longleftrightarrow> c \<in> set ''0123456789abcdefABCDEF''"

definition hexval :: "char \<Rightarrow> int" where
  "hexval c =
     (if isDigit c then byte c - 48
      else if c \<in> set ''abcdef'' then byte c - 87
      else byte c - 55)"

section \<open>The JSON decoder of the standard library (encoding/json)\<close>

text \<open>
  The client calls \<^verbatim>\<open>json.Unmarshal\<close> on the response body and on the \<^verbatim>\<open>data\<close>
  field of the envelope.  The decoder first checks that the whole input is one valid JSON
  value (\<^verbatim>\<open>checkValid\<close>), then stores the value into the target struct.  Both phases are
  modelled: a scanner that accepts exactly the JSON grammar and keeps, for every member
  of an object and every element of an array, the bytes it was read from (what a
  \<^verbatim>\<open>json.RawMessage\<close> field receives), and the stores into the field types the envelope
  uses.
\<close>

subsection \<open>UTF-8 (unicode/utf8)\<close>

definition RuneError :: int where
  "RuneError = 0xFFFD"

text \<open>\<^verbatim>\<open>utf8.EncodeRune\<close>: surrogates and values past U+10FFFF encode as U+FFFD.\<close>

definition EncodeRune :: "int \<Rightarrow> bytes" where
  "EncodeRune r =
     (if r \<le> 0x7F then [char_of r]
      else if r \<le> 0x7FF then [char_of (0xC0 + r div 64), char_of (0x80 + r mod 64)]
      else if r > 0x10FFFF \<or> (0xD800 \<le> r \<and> r \<le> 0xDFFF) then
        [char_of (0xEF::int), char_of (0xBF::int), char_of (0xBD::int)]
      else if r \<le> 0xFFFF then
        [char_of (0xE0 + r div 4096), char_of (0x80 + (r div 64) mod 64),
         char_of (0x80 + r mod 64)]
      else
        [char_of (0xF0 + r div 262144), char_of (0x80 + (r div 4096) mod 64),
         char_of (0x80 + (r div 64) mod 64), char_of (0x80 + r mod 64)])"

text \<open>
  The table \<^verbatim>\<open>first\<close> of unicode/utf8: for a leading byte, the length of the sequence
  and the range accepted for the second byte; \<open>None\<close> for a byte that starts no sequence.
\<close>

definition first :: "int \<Rightarrow> (nat \<times> int \<times> int) option" where
  "first p0 =
     (if 0xC2 \<le> p0 \<and> p0 \<le> 0xDF then Some (2, 0x80, 0xBF)
      else if p0 = 0xE0 then Some (3, 0xA0, 0xBF)
      else if 0xE1 \<le> p0 \<and> p0 \<le> 0xEC then Some (3, 0x80, 0xBF)
      else if p0 = 0xED then Some (3, 0x80, 0x9F)
      else if 0xEE \<le> p0 \<and> p0 \<le> 0xEF then Some (3, 0x80, 0xBF)
      else if p0 = 0xF0 then Some (4, 0x90, 0xBF)
      else if 0xF1 \<le> p0 \<and> p0 \<le> 0xF3 then Some (4, 0x80, 0xBF)
      else if p0 = 0xF4 then Some (4, 0x80, 0x8F)
      else None)"

definition cont :: "int \<Rightarrow> bool" where
  "cont b \<longleftrightarrow> 0x80 \<le> b \<and> b \<le> 0xBF"

text \<open>\<^verbatim>\<open>utf8.DecodeRune\<close>: the rune at the head of the input and its width in bytes.\<close>

definition DecodeRune :: "bytes \<Rightarrow> int \<times> nat" where
  "DecodeRune p =
     (case map byte p of
        [] \<Rightarrow> (RuneError, 0)
      | p0 # ps \<Rightarrow>
          if p0 < 0x80 then (p0, 1)
          else
            (case first p0 of
               None \<Rightarrow> (RuneError, 1)
             | Some (sz, lo, hi) \<Rightarrow>
                 if length (p0 # ps) < sz then (RuneError, 1)
                 else
                   (let b1 = ps ! 0 in
                    if b1 < lo \<or> hi < b1 then (RuneError, 1)
                    else if sz \<le> 2 then ((p0 mod 32) * 64 + b1 mod 64, 2)
                    else
                      (let b2 = ps ! 1 in
                       if \<not> cont b2 then (RuneError, 1)
                       else if sz \<le> 3 then
                         ((p0 mod 16) * 4096 + (b1 mod 64) * 64 + b2 mod 64, 3)
                       else
                         (let b3 = ps ! 2 in
                          if \<not> cont b3 then (RuneError, 1)
                          else ((p0 mod 8) * 262144 + (b1 mod 64) * 4096
                                + (b2 mod 64) * 64 + b3 mod 64, 4))))))"

subsection \<open>String literals\<close>

text \<open>\<^verbatim>\<open>getu4\<close>: the code unit of a \<^verbatim>\<open>\uXXXX\<close> escape at the head of the input.\<close>

fun getu4 :: "bytes \<Rightarrow> int option" where
  "getu4 (b # u # h1 # h2 # h3 # h4 # _) =
     (if b = CHR 0x5C \<and> u = CHR ''u'' \<and> isHex h1 \<and> isHex h2 \<and> isHex h3 \<and> isHex h4
      then Some (((hexval h1 * 16 + hexval h2) * 16 + hexval h3) * 16 + hexval h4)
      else None)"
| "getu4 _ = None"

definition isSurrogate :: "int \<Rightarrow> bool" where
  "isSurrogate r \<longleftrightarrow> 0xD800 \<le> r \<and> r < 0xE000"

text \<open>\<^verbatim>\<open>utf16.DecodeRune\<close>; the second argument is \<open>None\<close> where \<^verbatim>\<open>getu4\<close> gave \<open>-1\<close>.\<close>

definition utf16_DecodeRune :: "int \<Rightarrow> int option \<Rightarrow> int" where
  "utf16_DecodeRune r1 r2 =
     (case r2 of
        None \<Rightarrow> RuneError
      | Some r2 \<Rightarrow>
          if 0xD800 \<le> r1 \<and> r1 < 0xDC00 \<and> 0xDC00 \<le> r2 \<and> r2 < 0xE000
          then (r1 - 0xD800) * 1024 + (r2 - 0xDC00) + 0x10000
          else RuneError)"

definition unescape :: "char \<Rightarrow> char option" where
  "unescape e =
     (if e = CHR 0x22 \<or> e = CHR 0x5C \<or> e = CHR ''/'' \<or> e = CHR 0x27 then Some e
      else if e = CHR ''b'' then Some (CHR 0x08)
      else if e = CHR ''f'' then Some (CHR 0x0C)
      else if e = CHR ''n'' then Some (CHR 0x0A)
      else if e = CHR ''r'' then Some (CHR 0x0D)
      else if e = CHR ''t'' then Some (CHR 0x09)
      else None)"

text \<open>
  \<^verbatim>\<open>unquoteBytes\<close>, on the bytes between the quotes: escapes are replaced, invalid UTF-8
  becomes U+FFFD, an unpaired surrogate escape becomes U+FFFD.  The source advances its
  read index by the width of the rune; the head byte being \<open>c\<close>, that is
  \<open>drop (size - 1) cs\<close>, the width of a rune of a non-empty input being at least one.
\<close>

fun unquote :: "bytes \<Rightarrow> bytes option" where
  "unquote [] = Some []"
| "unquote (c # cs) =
     (if c = CHR 0x5C then
        (case cs of
           [] \<Rightarrow> None
         | e # r \<Rightarrow>
             if e = CHR ''u'' then
               (case getu4 (c # cs) of
                  None \<Rightarrow> None
                | Some rr \<Rightarrow>
                    if isSurrogate rr then
                      (let dec = utf16_DecodeRune rr (getu4 (drop 4 r)) in
                       if dec \<noteq> RuneError
                       then map_option (\<lambda>t. EncodeRune dec @ t) (unquote (drop 10 r))
                       else map_option (\<lambda>t. EncodeRune RuneError @ t) (unquote (drop 4 r)))
                    else map_option (\<lambda>t. EncodeRune rr @ t) (unquote (drop 4 r)))
             else
               (case unescape e of
                  None \<Rightarrow> None
                | Some b \<Rightarrow> map_option (\<lambda>t. b # t) (unquote r)))
      else if c = CHR 0x22 \<or> byte c < 0x20 then None
      else if byte c < 0x80 then map_option (\<lambda>t. c # t) (unquote cs)
      else
        (let rr = fst (DecodeRune (c # cs)); size = snd (DecodeRune (c # cs))
         in map_option (\<lambda>t. EncodeRune rr @ t) (unquote (drop (size - 1) cs))))"

subsection \<open>The scanner\<close>

text \<open>
  \<open>scan_string\<close> reads a string literal after its opening quote and returns the bytes up
  to the closing quote and the input after it.  The scanner accepts the escapes
  \<^verbatim>\<open>\" \\ \/ \b \f \n \r \t\<close> and \<^verbatim>\<open>\u\<close> with four hexadecimal digits, and rejects
  control characters.
\<close>

fun scan_string :: "bytes \<Rightarrow> (bytes \<times> bytes) option" where
  "scan_string [] = None"
| "scan_string (c # cs) =
     (if c = CHR 0x22 then Some ([], cs)
      else if c = CHR 0x5C then
        (case cs of
           [] \<Rightarrow> None
         | e # r \<Rightarrow>
             if e \<in> set ''bfnrt/'' \<or> e = CHR 0x5C \<or> e = CHR 0x22 then
               map_option (\<lambda>(t, rest). (c # e # t, rest)) (scan_string r)
             else if e = CHR ''u'' then
               (case r of
                  h1 # h2 # h3 # h4 # r' \<Rightarrow>
                    if isHex h1 \<and> isHex h2 \<and> isHex h3 \<and> isHex h4
                    then map_option (\<lambda>(t, rest). (c # e # h1 # h2 # h3 # h4 # t, rest))
                           (scan_string r')
                    else None
                | _ \<Rightarrow> None)
             else None)
      else if byte c < 0x20 then None
      else map_option (\<lambda>(t, rest). (c # t, rest)) (scan_string cs))"

text \<open>One or more digits.\<close>

definition scan_digits :: "bytes \<Rightarrow> (bytes \<times> bytes) option" where
  "scan_digits s =
     (let ds = takeWhile isDigit s
      in if ds = [] then None else Some (ds, dropWhile isDigit s))"

text \<open>The integer part: a single \<open>0\<close>, or a digit from 1 to 9 followed by digits.\<close>

definition scan_int_part :: "bytes \<Rightarrow> (bytes \<times> bytes) option" where
  "scan_int_part s =
     (case s of
        [] \<Rightarrow> None
      | c # r \<Rightarrow> if c = CHR ''0'' then Some ([c], r) else scan_digits s)"

definition scan_frac_part :: "bytes \<Rightarrow> (bytes \<times> bytes) option" where
  "scan_frac_part s =
     (case s of
        [] \<Rightarrow> Some ([], s)
      | c # r \<Rightarrow>
          if c = CHR ''.'' then map_option (\<lambda>(ds, t). (c # ds, t)) (scan_digits r)
          else Some ([], s))"

definition scan_exp_part :: "bytes \<Rightarrow> (bytes \<times> bytes) option" where
  "scan_exp_part s =
     (case s of
        [] \<Rightarrow> Some ([], s)
      | c # r \<Rightarrow>
          if c = CHR ''e'' \<or> c = CHR ''E'' then
            (case r of
               [] \<Rightarrow> None
             | g # r' \<Rightarrow>
                 if g = CHR ''+'' \<or> g = CHR ''-''
                 then map_option (\<lambda>(ds, t). (c # g # ds, t)) (scan_digits r')
                 else map_option (\<lambda>(ds, t). (c # ds, t)) (scan_digits r))
          else Some ([], s))"

definition scan_number :: "bytes \<Rightarrow> (bytes \<times> bytes) option" where
  "scan_number s =
     (let sign = (case s of [] \<Rightarrow> [] | c # _ \<Rightarrow> if c = CHR ''-'' then [c] else [])
      in case scan_int_part (drop (length sign) s) of
           None \<Rightarrow> None
         | Some (ip, s2) \<Rightarrow>
             (case scan_frac_part s2 of
                None \<Rightarrow> None
              | Some (fp, s3) \<Rightarrow>
                  (case scan_exp_part s3 of
                     None \<Rightarrow> None
                   | Some (ep, s4) \<Rightarrow> Some (sign @ ip @ fp @ ep, s4))))"

definition scan_literal :: "bytes \<Rightarrow> bytes \<Rightarrow> bytes option" where
  "scan_literal lit s =
     (if take (length lit) s = lit then Some (drop (length lit) s) else None)"

text \<open>
  A scanned value.  A number keeps its literal, a string is unquoted; a member of an
  object is its unquoted key, the bytes of its value and the value; an element of an
  array is the bytes of the value and the value.
\<close>

datatype jvalue =
    JNull
  | JBool bool
  | JNumber bytes
  | JString bytes
  | JArray "(bytes \<times> jvalue) list"
  | JObject "(bytes \<times> bytes \<times> jvalue) list"

text \<open>The scanner gives up on a value nested deeper than this many arrays and objects.\<close>

definition maxNestingDepth :: nat where
  "maxNestingDepth = 10000"

text \<open>
  \<open>parse_value n d s\<close> reads one value at the head of \<open>s\<close> (no leading space), inside \<open>d\<close>
  open arrays and objects.  \<open>parse_elements\<close> reads the elements of an array up to its
  closing bracket, \<open>parse_members\<close> the members of an object up to its closing brace.
  The first argument bounds the number of nested calls.  A value that can be read at all
  can be read with as many nested calls as it has bytes (\<open>parse_fuel\<close> below), so that
  the bound \<open>Suc (length s)\<close> of \<open>json_parse\<close> loses nothing.
\<close>

fun parse_value :: "nat \<Rightarrow> nat \<Rightarrow> bytes \<Rightarrow> (jvalue \<times> bytes) option"
  and parse_elements :: "nat \<Rightarrow> nat \<Rightarrow> bytes \<Rightarrow> ((bytes \<times> jvalue) list \<times> bytes) option"
  and parse_members :: "nat \<Rightarrow> nat \<Rightarrow> bytes \<Rightarrow> ((bytes \<times> bytes \<times> jvalue) list \<times> bytes) option"
where
  "parse_value 0 d s = None"
| "parse_value (Suc n) d s =
     (case s of
        [] \<Rightarrow> None
      | c # cs \<Rightarrow>
          if c = CHR ''{'' then
            (if maxNestingDepth \<le> d then None
             else
               (case skip_space cs of
                  [] \<Rightarrow> None
                | c' # r \<Rightarrow>
                    if c' = CHR ''}'' then Some (JObject [], r)
                    else map_option (\<lambda>(ms, rest). (JObject ms, rest))
                           (parse_members n (Suc d) (c' # r))))
          else if c = CHR ''['' then
            (if maxNestingDepth \<le> d then None
             else
               (case skip_space cs of
                  [] \<Rightarrow> None
                | c' # r \<Rightarrow>
                    if c' = CHR '']'' then Some (JArray [], r)
                    else map_option (\<lambda>(vs, rest). (JArray vs, rest))
                           (parse_elements n (Suc d) (c' # r))))
          else if c = CHR 0x22 then
            (case scan_string cs of
               None \<Rightarrow> None
             | Some (lit, rest) \<Rightarrow> map_option (\<lambda>t. (JString t, rest)) (unquote lit))
          else if c = CHR ''-'' \<or> isDigit c then
            map_option (\<lambda>(lit, rest). (JNumber lit, rest)) (scan_number s)
          else if c = CHR ''t'' then
            map_option (\<lambda>rest. (JBool True, rest)) (scan_literal ''true'' s)
          else if c = CHR ''f'' then
            map_option (\<lambda>rest. (JBool False, rest)) (scan_literal ''false'' s)
          else if c = CHR ''n'' then
            map_option (\<lambda>rest. (JNull, rest)) (scan_literal ''null'' s)
          else None)"
| "parse_elements 0 d s = None"
| "parse_elements (Suc n) d s =
     (case parse_value n d s of
        None \<Rightarrow> None
      | Some (v, r) \<Rightarrow>
          (let raw = take (length s - length r) s in
           case skip_space r of
             [] \<Rightarrow> None
           | c # r' \<Rightarrow>
               if c = CHR '','' then
                 map_option (\<lambda>(vs, rest). ((raw, v) # vs, rest))
                   (parse_elements n d (skip_space r'))
               else if c = CHR '']'' then Some ([(raw, v)], r')
               else None))"
| "parse_members 0 d s = None"
| "parse_members (Suc n) d s =
     (case s of
        [] \<Rightarrow> None
      | c # cs \<Rightarrow>
          if c \<noteq> CHR 0x22 then None
          else
            (case scan_string cs of
               None \<Rightarrow> None
             | Some (lit, r1) \<Rightarrow>
                 (case unquote lit of
                    None \<Rightarrow> None
                  | Some key \<Rightarrow>
                      (case skip_space r1 of
                         [] \<Rightarrow> None
                       | c1 # r2 \<Rightarrow>
                           if c1 \<noteq> CHR '':'' then None
                           else
                             (let s' = skip_space r2 in
                              case parse_value n d s' of
                                None \<Rightarrow> None
                              | Some (v, r3) \<Rightarrow>
                                  (let raw = take (length s' - length r3) s' in
                                   case skip_space r3 of
                                     [] \<Rightarrow> None
                                   | c3 # r4 \<Rightarrow>
                                       if c3 = CHR '','' then
                                         map_option (\<lambda>(ms, rest). ((key, raw, v) # ms, rest))
                                           (parse_members n d (skip_space r4))
                                       else if c3 = CHR ''}'' then Some ([(key, raw, v)], r4)
                                       else None))))))"

text \<open>
  The whole input is one value between optional spaces (\<^verbatim>\<open>checkValid\<close>); \<open>None\<close> is the
  decoder's syntax error.
\<close>

definition json_parse :: "bytes \<Rightarrow> jvalue option" where
  "json_parse data =
     (let s = skip_space data
      in case parse_value (Suc (length s)) 0 s of
           None \<Rightarrow> None
         | Some (v, r) \<Rightarrow> if skip_space r = [] then Some v else None)"

subsection \<open>Numbers (strconv)\<close>

definition digits_val :: "bytes \<Rightarrow> int" where
  "digits_val ds = foldl (\<lambda>a c. 10 * a + (byte c - 48)) 0 ds"

text \<open>
  \<^verbatim>\<open>strconv.ParseInt(s, 10, 64)\<close> on a number literal, for a field of type \<^verbatim>\<open>int\<close> (64 bits
  wide on the platforms the client is built for): a literal with a fraction or an
  exponent, or outside the range, is refused.
\<close>

definition ParseInt :: "bytes \<Rightarrow> int option" where
  "ParseInt lit =
     (let neg = (take 1 lit = ''-'');
          ds = (if neg then drop 1 lit else lit)
      in if ds = [] \<or> \<not> list_all isDigit ds then None
         else
           (let n = (if neg then - digits_val ds else digits_val ds)
            in if - (2 ^ 63) \<le> n \<and> n < 2 ^ 63 then Some n else None))"

text \<open>
  A \<^verbatim>\<open>float64\<close> is kept as the exact value of the literal it was read from: rounding to
  the nearest representable number is not modelled.  \<^verbatim>\<open>strconv.ParseFloat\<close> refuses a
  literal of a JSON number only when it rounds to infinity, that is from
  \<open>2 ^ 1024 - 2 ^ 970\<close> upwards in magnitude.
\<close>

type_synonym float64 = rat

definition ParseFloat :: "bytes \<Rightarrow> float64 option" where
  "ParseFloat lit =
     (let neg = (take 1 lit = ''-'');
          s1 = (if neg then drop 1 lit else lit);
          ip = takeWhile isDigit s1;
          s2 = dropWhile isDigit s1;
          fp = (if take 1 s2 = ''.'' then takeWhile isDigit (drop 1 s2) else []);
          s3 = (if take 1 s2 = ''.'' then dropWhile isDigit (drop 1 s2) else s2);
          ex = (if s3 = [] then 0
                else if take 1 (drop 1 s3) = ''-'' then - digits_val (drop 2 s3)
                else if take 1 (drop 1 s3) = ''+'' then digits_val (drop 2 s3)
                else digits_val (drop 1 s3));
          m = digits_val (ip @ fp);
          e = ex - int (length fp);
          v = (if 0 \<le> e then of_int m * 10 ^ nat e else of_int m / 10 ^ nat (- e))
      in if 2 ^ 1024 - 2 ^ 970 \<le> v then None else Some (if neg then - v else v))"

subsection \<open>Storing a value into a struct\<close>

text \<open>
  A type mismatch does not stop the decoder: it records the first such error
  (\<^verbatim>\<open>saveError\<close>), leaves the field as it was and goes on; \<^verbatim>\<open>Unmarshal\<close> returns the recorded
  error at the end.
\<close>

datatype json_error =
    SyntaxError
  | UnmarshalTypeError string string

definition saveError :: "json_error option \<Rightarrow> json_error option \<Rightarrow> json_error option" where
  "saveError saved e = (case saved of None \<Rightarrow> e | Some _ \<Rightarrow> saved)"

definition value_name :: "jvalue \<Rightarrow> string" where
  "value_name v =
     (case v of
        JNull \<Rightarrow> ''null''
      | JBool _ \<Rightarrow> ''bool''
      | JNumber _ \<Rightarrow> ''number''
      | JString _ \<Rightarrow> ''string''
      | JArray _ \<Rightarrow> ''array''
      | JObject _ \<Rightarrow> ''object'')"

text \<open>
  The store of a field takes the bytes of the value, the value and the struct, and returns
  the struct and the error to record, if any.  \<open>null\<close> leaves a string or a number as it
  is; a \<^verbatim>\<open>json.RawMessage\<close> takes the bytes of any value, \<open>null\<close> included.
\<close>

type_synonym 'a store = "bytes \<Rightarrow> jvalue \<Rightarrow> 'a \<Rightarrow> 'a \<times> json_error option"

definition store_string :: "(string \<Rightarrow> 'a \<Rightarrow> 'a) \<Rightarrow> string \<Rightarrow> 'a store" where
  "store_string upd name raw v x =
     (case v of
        JString s \<Rightarrow> (upd s x, None)
      | JNull \<Rightarrow> (x, None)
      | _ \<Rightarrow> (x, Some (UnmarshalTypeError (value_name v) name)))"

definition store_float64 :: "(float64 \<Rightarrow> 'a \<Rightarrow> 'a) \<Rightarrow> string \<Rightarrow> 'a store" where
  "store_float64 upd name raw v x =
     (case v of
        JNumber lit \<Rightarrow>
          (case ParseFloat lit of
             Some f \<Rightarrow> (upd f x, None)
           | None \<Rightarrow> (x, Some (UnmarshalTypeError (''number '' @ lit) name)))
      | JNull \<Rightarrow> (x, None)
      | _ \<Rightarrow> (x, Some (UnmarshalTypeError (value_name v) name)))"

definition store_int :: "(int \<Rightarrow> 'a \<Rightarrow> 'a) \<Rightarrow> string \<Rightarrow> 'a store" where
  "store_int upd name raw v x =
     (case v of
        JNumber lit \<Rightarrow>
          (case ParseInt lit of
             Some n \<Rightarrow> (upd n x, None)
           | None \<Rightarrow> (x, Some (UnmarshalTypeError (''number '' @ lit) name)))
      | JNull \<Rightarrow> (x, None)
      | _ \<Rightarrow> (x, Some (UnmarshalTypeError (value_name v) name)))"

definition store_RawMessage :: "(bytes \<Rightarrow> 'a \<Rightarrow> 'a) \<Rightarrow> 'a store" where
  "store_RawMessage upd raw v x = (upd raw x, None)"

text \<open>
  \<^verbatim>\<open>foldName\<close>: a key that is not the name of a field selects the field whose name it
  equals under Unicode simple case folding.  ASCII letters fold to upper case, and so do
  the two runes outside ASCII that fold to an ASCII letter: U+017F (long s) and
  U+212A (Kelvin sign).  Every other rune outside ASCII folds to a rune outside ASCII;
  its bytes are kept here as they are, which gives the same answer whenever one side of
  the comparison is an ASCII name, as all field names of this client are.
\<close>

definition toUpper :: "char \<Rightarrow> char" where
  "toUpper c = (if 97 \<le> byte c \<and> byte c \<le> 122 then char_of (byte c - 32) else c)"

definition toLower :: "char \<Rightarrow> char" where
  "toLower c = (if 65 \<le> byte c \<and> byte c \<le> 90 then char_of (byte c + 32) else c)"

fun foldName :: "bytes \<Rightarrow> bytes" where
  "foldName [] = []"
| "foldName (c # cs) =
     (if byte c < 0x80 then toUpper c # foldName cs
      else if take 2 (c # cs) = [CHR 0xC5, CHR 0xBF] then CHR ''S'' # foldName (drop 1 cs)
      else if take 3 (c # cs) = [CHR 0xE2, CHR 0x84, CHR 0xAA] then CHR ''K'' # foldName (drop 2 cs)
      else c # foldName cs)"

text \<open>
  The fields of a struct type: the name of each field in JSON and its store.  A key
  selects the field of that exact name, otherwise the field of the same folded name.
\<close>

type_synonym 'a fields = "(string \<times> 'a store) list"

definition lookup_field :: "'a fields \<Rightarrow> bytes \<Rightarrow> (string \<times> 'a store) option" where
  "lookup_field fs key =
     (case find (\<lambda>f. fst f = key) fs of
        Some f \<Rightarrow> Some f
      | None \<Rightarrow> find (\<lambda>f. foldName (fst f) = foldName key) fs)"

definition store_member ::
  "'a fields \<Rightarrow> 'a \<times> json_error option \<Rightarrow> bytes \<times> bytes \<times> jvalue \<Rightarrow> 'a \<times> json_error option"
where
  "store_member fs st m =
     (case lookup_field fs (fst m) of
        None \<Rightarrow> st
      | Some f \<Rightarrow>
          (let (x, e) = snd f (fst (snd m)) (snd (snd m)) (fst st)
           in (x, saveError (snd st) e)))"

text \<open>
  A struct takes an object member by member, in the order of the input, so that the last
  of several members of one field wins; it ignores \<open>null\<close> and refuses everything else.
\<close>

definition store_struct :: "'a fields \<Rightarrow> string \<Rightarrow> jvalue \<Rightarrow> 'a \<Rightarrow> 'a \<times> json_error option" where
  "store_struct fs name v x =
     (case v of
        JObject ms \<Rightarrow> foldl (store_member fs) (x, None) ms
      | JNull \<Rightarrow> (x, None)
      | _ \<Rightarrow> (x, Some (UnmarshalTypeError (value_name v) name)))"

text \<open>\<^verbatim>\<open>json.Unmarshal(data, &x)\<close> for \<open>x\<close> of a struct type.\<close>

definition json_Unmarshal :: "'a fields \<Rightarrow> string \<Rightarrow> bytes \<Rightarrow> 'a \<Rightarrow> json_error + 'a" where
  "json_Unmarshal fs name data x =
     (case json_parse data of
        None \<Rightarrow> Inl SyntaxError
      | Some v \<Rightarrow>
          (case store_struct fs name v x of
             (x', None) \<Rightarrow> Inr x'
           | (x', Some e) \<Rightarrow> Inl e))"

section \<open>The data transfer objects (package models)\<close>

text \<open>
  The structs of the package, field by field.  A slice is a list, a map from strings to
  strings an association list, a pointer that may be nil an option.  The empty structs
  \<^verbatim>\<open>MessageStatus\<close> and \<^verbatim>\<open>MessageDetails\<close> have one value each.  A \<^verbatim>\<open>time.Time\<close> is an
  instant in nanoseconds.
\<close>

type_synonym time_Time = int

datatype MessageStatus = MessageStatus

datatype MessageDetails = MessageDetails

record Attachment =
  Name :: string
  ContentType :: string
  Data :: string
  Size :: int

record Message =
  ID :: int
  Token :: string
  Status :: "MessageStatus option"
  Details :: "MessageDetails option"
  Inspection :: bytes
  PlainBody :: string
  HTMLBody :: string
  Attachments :: "Attachment list"
  Headers :: "(string \<times> string) list"
  RawMessage :: string

record Delivery =
  ID :: int
  Status :: string
  Details :: string
  Output :: string
  SentWithSSL :: bool
  LogID :: int
  Time :: float64
  Timestamp :: time_Time

record SendMessageRequest =
  To :: "string list"
  CC :: "string list"
  BCC :: "string list"
  From :: string
  Sender :: string
  Subject :: string
  Tag :: string
  ReplyTo :: string
  PlainBody :: string
  HTMLBody :: string
  Attachments :: "Attachment list"
  Headers :: "(string \<times> string) list"
  Bounce :: bool

record SendRawRequest =
  MailFrom :: string
  RcptTo :: "string list"
  Data :: string
  Bounce :: bool

record SendMessageResponse =
  MessageID :: int
  Token :: string

definition SendMessageResponse_zero :: SendMessageResponse where
  "SendMessageResponse_zero = \<lparr>MessageID = 0, Token = []\<rparr>"

definition SendMessageResponse_fields :: "SendMessageResponse fields" where
  "SendMessageResponse_fields =
     [(''message_id'', store_int (\<lambda>n r. r\<lparr>MessageID := n\<rparr>) ''SendMessageResponse.message_id''),
      (''token'', store_string (\<lambda>s r. r\<lparr>Token := s\<rparr>) ''SendMessageResponse.token'')]"

section \<open>The client (package postalclient)\<close>

subsection \<open>Envelopes and errors\<close>

record Response =
  Status :: string
  Time :: float64
  Flags :: bytes
  Data :: bytes

definition Response_zero :: Response where
  "Response_zero = \<lparr>Status = [], Time = 0, Flags = [], Data = []\<rparr>"

definition Response_fields :: "Response fields" where
  "Response_fields =
     [(''status'', store_string (\<lambda>s r. r\<lparr>Status := s\<rparr>) ''Response.status''),
      (''time'', store_float64 (\<lambda>f r. r\<lparr>Time := f\<rparr>) ''Response.time''),
      (''flags'', store_RawMessage (\<lambda>b r. r\<lparr>Flags := b\<rparr>)),
      (''data'', store_RawMessage (\<lambda>b r. r\<lparr>Data := b\<rparr>))]"

record Error =
  Status :: string
  Time :: float64
  Flags :: bytes
  Data :: bytes
  ErrorCode :: string
  Message :: string

definition Error_zero :: Error where
  "Error_zero =
     \<lparr>Status = [], Time = 0, Flags = [], Data = [], ErrorCode = [], Message = []\<rparr>"

definition Error_fields :: "Error fields" where
  "Error_fields =
     [(''status'', store_string (\<lambda>s r. r\<lparr>Status := s\<rparr>) ''Error.status''),
      (''time'', store_float64 (\<lambda>f r. r\<lparr>Time := f\<rparr>) ''Error.time''),
      (''flags'', store_RawMessage (\<lambda>b r. r\<lparr>Flags := b\<rparr>)),
      (''data'', store_RawMessage (\<lambda>b r. r\<lparr>Data := b\<rparr>)),
      (''error_code'', store_string (\<lambda>s r. r\<lparr>ErrorCode := s\<rparr>) ''Error.error_code''),
      (''message'', store_string (\<lambda>s r. r\<lparr>Message := s\<rparr>) ''Error.message'')]"

text \<open>\<^verbatim>\<open>func (e *Error) Error() string\<close>\<close>

definition Error_Error :: "Error \<Rightarrow> string" where
  "Error_Error e = ''postal API error: '' @ Status e @ '' - '' @ Message e"

text \<open>
  A Go \<^verbatim>\<open>error\<close>: an error wrapped by \<^verbatim>\<open>fmt.Errorf\<close> with \<^verbatim>\<open>%w\<close> (the format and the
  wrapped error), an API error \<^verbatim>\<open>*Error\<close>, an error of the JSON decoder, or an error made
  elsewhere, known by its text.
\<close>

datatype error =
    Errorf string error
  | APIError Error
  | JSONError json_error
  | ErrorString string

definition json_Unmarshal_Response :: "bytes \<Rightarrow> error + Response" where
  "json_Unmarshal_Response data =
     (case json_Unmarshal Response_fields ''Response'' data Response_zero of
        Inl e \<Rightarrow> Inl (JSONError e)
      | Inr r \<Rightarrow> Inr r)"

definition json_Unmarshal_Error :: "bytes \<Rightarrow> error + Error" where
  "json_Unmarshal_Error data =
     (case json_Unmarshal Error_fields ''Error'' data Error_zero of
        Inl e \<Rightarrow> Inl (JSONError e)
      | Inr r \<Rightarrow> Inr r)"

definition json_Unmarshal_SendMessageResponse :: "bytes \<Rightarrow> error + SendMessageResponse" where
  "json_Unmarshal_SendMessageResponse data =
     (case json_Unmarshal SendMessageResponse_fields ''SendMessageResponse'' data
             SendMessageResponse_zero of
        Inl e \<Rightarrow> Inl (JSONError e)
      | Inr r \<Rightarrow> Inr r)"

subsection \<open>HTTP (net/http)\<close>

text \<open>
  A request as \<^verbatim>\<open>http.NewRequest\<close> makes it and \<^verbatim>\<open>Header.Set\<close> completes it; a response
  as the client reads it: the status code and what \<^verbatim>\<open>io.ReadAll\<close> returns for its body.
\<close>

record http_Request =
  Method :: string
  URL :: string
  Header :: "string \<rightharpoonup> string list"
  Body :: "bytes option"

record http_Response =
  StatusCode :: int
  Body :: "error + bytes"

record http_Client =
  Timeout :: int

definition StatusOK :: int where
  "StatusOK = 200"

definition MethodPost :: string where
  "MethodPost = ''POST''"

text \<open>The token characters of RFC 7230: what a method and a header name are made of.\<close>

definition isToken :: "char \<Rightarrow> bool" where
  "isToken c \<longleftrightarrow>
     (48 \<le> byte c \<and> byte c \<le> 57) \<or> (65 \<le> byte c \<and> byte c \<le> 90) \<or>
     (97 \<le> byte c \<and> byte c \<le> 122) \<or> c \<in> set ''!#$%&*+-.^_`|~'' \<or> c = CHR 0x27"

definition validMethod :: "string \<Rightarrow> bool" where
  "validMethod method \<longleftrightarrow> method \<noteq> [] \<and> list_all isToken method"

text \<open>
  \<^verbatim>\<open>textproto.CanonicalMIMEHeaderKey\<close>: a key made of token characters has its first letter
  and every letter after a hyphen in upper case and the others in lower case; any other
  key is left as it is.
\<close>

fun canonical :: "bool \<Rightarrow> string \<Rightarrow> string" where
  "canonical upper [] = []"
| "canonical upper (c # cs) =
     (let c' = (if upper then toUpper c else toLower c)
      in c' # canonical (c' = CHR ''-'') cs)"

definition CanonicalMIMEHeaderKey :: "string \<Rightarrow> string" where
  "CanonicalMIMEHeaderKey s = (if list_all isToken s then canonical True s else s)"

definition Header_Set ::
  "string \<Rightarrow> string \<Rightarrow> (string \<rightharpoonup> string list) \<Rightarrow> (string \<rightharpoonup> string list)" where
  "Header_Set key val h = h(CanonicalMIMEHeaderKey key \<mapsto> [val])"

definition Header_Get :: "(string \<rightharpoonup> string list) \<Rightarrow> string \<Rightarrow> string" where
  "Header_Get h key =
     (case h (CanonicalMIMEHeaderKey key) of
        None \<Rightarrow> []
      | Some [] \<Rightarrow> []
      | Some (v # _) \<Rightarrow> v)"

subsection \<open>What the client does not contain\<close>

text \<open>
  What the client is given from outside are parameters of the model:
  \<^item> \<open>json_Marshal\<close>: the encoding of a request body, which fails for a value that has no
    JSON encoding;
  \<^item> \<open>url_Parse\<close>: the error, if any, that \<^verbatim>\<open>url.Parse\<close> finds in the URL of a request;
  \<^item> \<open>http_Do\<close>: the round trip of \<^verbatim>\<open>http.Client.Do\<close>, which depends on and changes the
    state \<open>'n\<close> of the transport, the network and the server, and returns an error or a
    response;
  \<^item> \<open>json_Unmarshal_Message\<close> and \<open>json_Unmarshal_Deliveries\<close>: the decoder at the types
    \<^verbatim>\<open>Message\<close> and \<^verbatim>\<open>[]Delivery\<close>.
\<close>

record ('b, 'n) env =
  json_Marshal :: "'b \<Rightarrow> error + bytes"
  url_Parse :: "string \<Rightarrow> error option"
  http_Do :: "http_Client \<Rightarrow> http_Request \<Rightarrow> 'n \<Rightarrow> (error + http_Response) \<times> 'n"
  json_Unmarshal_Message :: "bytes \<Rightarrow> error + Message"
  json_Unmarshal_Deliveries :: "bytes \<Rightarrow> error + Delivery list"

text \<open>
  \<^verbatim>\<open>http.NewRequest\<close>: an empty method means GET; the method must be a token and the URL
  must parse; the new request has no header.
\<close>

definition http_NewRequest ::
  "('b, 'n) env \<Rightarrow> string \<Rightarrow> string \<Rightarrow> bytes option \<Rightarrow> error + http_Request" where
  "http_NewRequest env method url body =
     (let method = (if method = [] then ''GET'' else method)
      in if \<not> validMethod method then Inl (ErrorString ''net/http: invalid method'')
         else
           (case url_Parse env url of
              Some err \<Rightarrow> Inl err
            | None \<Rightarrow> Inr \<lparr>Method = method, URL = url, Header = Map.empty, Body = body\<rparr>))"

subsection \<open>The client\<close>

record Client =
  BaseURL :: string
  APIKey :: string
  HTTPClient :: http_Client

definition DefaultBaseURL :: string where
  "DefaultBaseURL = ''https://postal.example.com/api/v1''"

text \<open>Thirty seconds, in nanoseconds.\<close>

definition DefaultTimeout :: int where
  "DefaultTimeout = 30 * 1000000000"

definition NewClient :: "string \<Rightarrow> Client" where
  "NewClient apiKey =
     \<lparr>BaseURL = DefaultBaseURL, APIKey = apiKey, HTTPClient = \<lparr>Timeout = DefaultTimeout\<rparr>\<rparr>"

definition NewClientWithOptions :: "string \<Rightarrow> string \<Rightarrow> int \<Rightarrow> Client" where
  "NewClientWithOptions apiKey baseURL timeout =
     \<lparr>BaseURL = baseURL, APIKey = apiKey, HTTPClient = \<lparr>Timeout = timeout\<rparr>\<rparr>"

text \<open>
  The methods have a pointer receiver: they run on the client that is in memory and on
  the state of the transport, and return the result with the memory and the state after
  the call.  A result \<open>Inl err\<close> is the pair of nil and \<open>err\<close>, a result \<open>Inr x\<close> the
  pair of \<open>x\<close> and nil.  The receiver and its HTTP client are not nil, as for every
  client that \<open>NewClient\<close> or \<open>NewClientWithOptions\<close> makes.  Closing the body of the
  response (\<^verbatim>\<open>defer resp.Body.Close()\<close>) belongs to the round trip: it acts on the
  connection, which is part of the state of the transport.
\<close>

record 'n world =
  client :: Client
  net :: 'n

text \<open>\<^verbatim>\<open>func (c *Client) do(method, path string, body interface{}) (*Response, error)\<close>\<close>

definition do ::
  "('b, 'n) env \<Rightarrow> string \<Rightarrow> string \<Rightarrow> 'b option \<Rightarrow> 'n world \<Rightarrow> (error + Response) \<times> 'n world"
where
  "do env method path body w =
     (let c = client w;
          url = BaseURL c @ path
      in case (case body of
                 None \<Rightarrow> Inr None
               | Some b \<Rightarrow>
                   (case json_Marshal env b of
                      Inl err \<Rightarrow> Inl (Errorf ''error marshaling request body: %w'' err)
                    | Inr bodyBytes \<Rightarrow> Inr (Some bodyBytes))) of
           Inl err \<Rightarrow> (Inl err, w)
         | Inr bodyReader \<Rightarrow>
             (case http_NewRequest env method url bodyReader of
                Inl err \<Rightarrow> (Inl (Errorf ''error creating request: %w'' err), w)
              | Inr req0 \<Rightarrow>
                  (let req1 = req0\<lparr>Header := Header_Set ''Content-Type'' ''application/json'' (Header req0)\<rparr>;
                       req2 = req1\<lparr>Header := Header_Set ''Accept'' ''application/json'' (Header req1)\<rparr>;
                       req = req2\<lparr>Header := Header_Set ''X-Server-API-Key'' (APIKey c) (Header req2)\<rparr>
                   in case http_Do env (HTTPClient c) req (net w) of
                        (Inl err, n) \<Rightarrow>
                          (Inl (Errorf ''error performing request: %w'' err), w\<lparr>net := n\<rparr>)
                      | (Inr resp, n) \<Rightarrow>
                          (case http_Response.Body resp of
                             Inl err \<Rightarrow>
                               (Inl (Errorf ''error reading response body: %w'' err), w\<lparr>net := n\<rparr>)
                           | Inr respBody \<Rightarrow>
                               if StatusCode resp \<noteq> StatusOK then
                                 (case json_Unmarshal_Error respBody of
                                    Inl err \<Rightarrow>
                                      (Inl (Errorf ''error unmarshaling error response: %w'' err),
                                       w\<lparr>net := n\<rparr>)
                                  | Inr apiError \<Rightarrow> (Inl (APIError apiError), w\<lparr>net := n\<rparr>))
                               else
                                 (case json_Unmarshal_Response respBody of
                                    Inl err \<Rightarrow>
                                      (Inl (Errorf ''error unmarshaling response: %w'' err),
                                       w\<lparr>net := n\<rparr>)
                                  | Inr apiResp \<Rightarrow>
                                      if Response.Status apiResp \<noteq> ''success'' then
                                        (case json_Unmarshal_Error respBody of
                                           Inl err \<Rightarrow>
                                             (Inl (Errorf ''error unmarshaling error response: %w'' err),
                                              w\<lparr>net := n\<rparr>)
                                         | Inr apiError \<Rightarrow>
                                             (Inl (APIError apiError), w\<lparr>net := n\<rparr>))
                                      else (Inr apiResp, w\<lparr>net := n\<rparr>))))))"

text \<open>\<^verbatim>\<open>func (c *Client) post(path string, body interface{}) (*Response, error)\<close>\<close>

definition post ::
  "('b, 'n) env \<Rightarrow> string \<Rightarrow> 'b option \<Rightarrow> 'n world \<Rightarrow> (error + Response) \<times> 'n world"
where
  "post env path body w = do env MethodPost path body w"

subsection \<open>The endpoint methods\<close>

text \<open>
  The bodies the endpoint methods send: the map with the single key \<^verbatim>\<open>id\<close>, or a pointer
  to a request, which the caller may have left nil.
\<close>

datatype body =
    Body_id int
  | Body_SendMessageRequest "SendMessageRequest option"
  | Body_SendRawRequest "SendRawRequest option"

text \<open>\<^verbatim>\<open>func (c *Client) GetMessage(id int) (*models.Message, error)\<close>\<close>

definition GetMessage ::
  "(body, 'n) env \<Rightarrow> int \<Rightarrow> 'n world \<Rightarrow> (error + Message) \<times> 'n world" where
  "GetMessage env id' w =
     (let body = Body_id id'
      in case post env ''/messages/message'' (Some body) w of
           (Inl err, w') \<Rightarrow> (Inl err, w')
         | (Inr resp, w') \<Rightarrow>
             (case json_Unmarshal_Message env (Response.Data resp) of
                Inl err \<Rightarrow> (Inl (Errorf ''error unmarshaling response: %w'' err), w')
              | Inr message \<Rightarrow> (Inr message, w')))"

text \<open>\<^verbatim>\<open>func (c *Client) GetMessageDeliveries(id int) ([]models.Delivery, error)\<close>\<close>

definition GetMessageDeliveries ::
  "(body, 'n) env \<Rightarrow> int \<Rightarrow> 'n world \<Rightarrow> (error + Delivery list) \<times> 'n world" where
  "GetMessageDeliveries env id' w =
     (let body = Body_id id'
      in case post env ''/messages/deliveries'' (Some body) w of
           (Inl err, w') \<Rightarrow> (Inl err, w')
         | (Inr resp, w') \<Rightarrow>
             (case json_Unmarshal_Deliveries env (Response.Data resp) of
                Inl err \<Rightarrow> (Inl (Errorf ''error unmarshaling response: %w'' err), w')
              | Inr deliveries \<Rightarrow> (Inr deliveries, w')))"

text \<open>
  \<^verbatim>\<open>func (c *Client) SendMessage(req *models.SendMessageRequest) (*models.SendMessageResponse, error)\<close>
\<close>

definition SendMessage ::
  "(body, 'n) env \<Rightarrow> SendMessageRequest option \<Rightarrow> 'n world
     \<Rightarrow> (error + SendMessageResponse) \<times> 'n world" where
  "SendMessage env req w =
     (case post env ''/send/message'' (Some (Body_SendMessageRequest req)) w of
        (Inl err, w') \<Rightarrow> (Inl err, w')
      | (Inr resp, w') \<Rightarrow>
          (case json_Unmarshal_SendMessageResponse (Response.Data resp) of
             Inl err \<Rightarrow> (Inl (Errorf ''error unmarshaling send response: %w'' err), w')
           | Inr sendResp \<Rightarrow> (Inr sendResp, w')))"

text \<open>
  \<^verbatim>\<open>func (c *Client) SendRaw(req *models.SendRawRequest) (*models.SendMessageResponse, error)\<close>
\<close>

definition SendRaw ::
  "(body, 'n) env \<Rightarrow> SendRawRequest option \<Rightarrow> 'n world
     \<Rightarrow> (error + SendMessageResponse) \<times> 'n world" where
  "SendRaw env req w =
     (case post env ''/send/raw'' (Some (Body_SendRawRequest req)) w of
        (Inl err, w') \<Rightarrow> (Inl err, w')
      | (Inr resp, w') \<Rightarrow>
          (case json_Unmarshal_SendMessageResponse (Response.Data resp) of
             Inl err \<Rightarrow> (Inl (Errorf ''error unmarshaling send response: %w'' err), w')
           | Inr sendResp \<Rightarrow> (Inr sendResp, w')))"

section \<open>Notions used to state the properties\<close>

text \<open>
  The request that \<open>do\<close> hands to the HTTP client, or the error that stops it before:
  the part of \<open>do\<close> up to the call of \<^verbatim>\<open>c.HTTPClient.Do\<close>.
\<close>

definition request_of ::
  "('b, 'n) env \<Rightarrow> Client \<Rightarrow> string \<Rightarrow> string \<Rightarrow> 'b option \<Rightarrow> error + http_Request" where
  "request_of env c method path body =
     (case (case body of
              None \<Rightarrow> Inr None
            | Some b \<Rightarrow>
                (case json_Marshal env b of
                   Inl err \<Rightarrow> Inl (Errorf ''error marshaling request body: %w'' err)
                 | Inr bodyBytes \<Rightarrow> Inr (Some bodyBytes))) of
        Inl err \<Rightarrow> Inl err
      | Inr bodyReader \<Rightarrow>
          (case http_NewRequest env method (BaseURL c @ path) bodyReader of
             Inl err \<Rightarrow> Inl (Errorf ''error creating request: %w'' err)
           | Inr req0 \<Rightarrow>
               Inr (req0\<lparr>Header :=
                      Header_Set ''X-Server-API-Key'' (APIKey c)
                        (Header_Set ''Accept'' ''application/json''
                          (Header_Set ''Content-Type'' ''application/json'' (Header req0)))\<rparr>)))"

text \<open>
  The call \<open>do env method path body w\<close> sends its request and the transport answers
  with the response \<open>resp\<close>, leaving the state \<open>n\<close>.
\<close>

definition answered ::
  "('b, 'n) env \<Rightarrow> string \<Rightarrow> string \<Rightarrow> 'b option \<Rightarrow> 'n world \<Rightarrow> http_Response \<Rightarrow> 'n \<Rightarrow> bool"
where
  "answered env method path body w resp n \<longleftrightarrow>
     (\<exists>req. request_of env (client w) method path body = Inr req \<and>
            http_Do env (HTTPClient (client w)) req (net w) = (Inr resp, n))"

text \<open>
  A transport that keeps the list of the requests it was given: its state is that list,
  and its answer may depend on the requests before.
\<close>

definition recording ::
  "(http_Request list \<Rightarrow> http_Request \<Rightarrow> error + http_Response) \<Rightarrow>
   http_Client \<Rightarrow> http_Request \<Rightarrow> http_Request list \<Rightarrow> (error + http_Response) \<times> http_Request list"
where
  "recording reply hc req seen = (reply seen req, seen @ [req])"


text \<open>
  The member of an object that gives a field its value: the last of the members whose key
  selects the field.
\<close>

definition selects :: "'a fields \<Rightarrow> string \<Rightarrow> bytes \<Rightarrow> bool" where
  "selects fs name key \<longleftrightarrow>
     (case lookup_field fs key of None \<Rightarrow> False | Some f \<Rightarrow> fst f = name)"

definition field_member ::
  "'a fields \<Rightarrow> string \<Rightarrow> (bytes \<times> bytes \<times> jvalue) list \<Rightarrow> (bytes \<times> jvalue) option" where
  "field_member fs name ms =
     (let sel = filter (\<lambda>m. selects fs name (fst m)) ms
      in if sel = [] then None else Some (snd (last sel)))"

text \<open>The four fields that an error envelope shares with an envelope.\<close>

definition Response_of :: "Error \<Rightarrow> Response" where
  "Response_of e =
     \<lparr>Response.Status = Error.Status e, Time = Error.Time e, Flags = Error.Flags e,
      Data = Error.Data e\<rparr>"

subsection \<open>The servers and bodies of the test suite\<close>

text \<open>
  A server in the manner of \<^verbatim>\<open>httptest.NewServer\<close>: it answers every request with one
  status code and one body, and records the requests.  Request bodies are not inspected,
  so any encoding of them will do; of the \<^verbatim>\<open>data\<close> of a message or of deliveries only the
  syntax is checked.
\<close>

definition Message_zero :: Message where
  "Message_zero =
     \<lparr>Message.ID = 0, Token = [], Status = None, Details = None, Inspection = [], PlainBody = [],
      HTMLBody = [], Attachments = [], Headers = [], RawMessage = []\<rparr>"

definition test_server :: "int \<Rightarrow> bytes \<Rightarrow> (body, http_Request list) env" where
  "test_server code respBody =
     \<lparr>json_Marshal = (\<lambda>b. Inr ''{}''),
      url_Parse = (\<lambda>u. None),
      http_Do = recording (\<lambda>seen req. Inr \<lparr>StatusCode = code, Body = Inr respBody\<rparr>),
      json_Unmarshal_Message =
        (\<lambda>d. case json_parse d of None \<Rightarrow> Inl (JSONError SyntaxError) | Some _ \<Rightarrow> Inr Message_zero),
      json_Unmarshal_Deliveries =
        (\<lambda>d. case json_parse d of None \<Rightarrow> Inl (JSONError SyntaxError) | Some _ \<Rightarrow> Inr [])\<rparr>"

text \<open>The transport of \<^verbatim>\<open>mockTransport\<close>, which fails every round trip.\<close>

definition mock_transport :: "(body, http_Request list) env" where
  "mock_transport =
     (test_server 200 [])
       \<lparr>http_Do := recording (\<lambda>seen req. Inl (ErrorString ''mock transport error''))\<rparr>"

definition test_world :: "http_Request list world" where
  "test_world =
     \<lparr>client = (NewClient ''test-api-key'')\<lparr>BaseURL := ''http://127.0.0.1:8080''\<rparr>, net = []\<rparr>"

text \<open>The request that the test client makes of a path and a body.\<close>

definition test_request :: "string \<Rightarrow> body option \<Rightarrow> http_Request" where
  "test_request path body =
     \<lparr>Method = ''POST'',
      URL = ''http://127.0.0.1:8080'' @ path,
      Header = [''Content-Type'' \<mapsto> [''application/json''],
                ''Accept'' \<mapsto> [''application/json''],
                ''X-Server-Api-Key'' \<mapsto> [''test-api-key'']],
      Body = (case body of None \<Rightarrow> None | Some _ \<Rightarrow> Some ''{}'')\<rparr>"

text \<open>The bodies of \<^verbatim>\<open>TestClientDo\<close> and \<^verbatim>\<open>TestClientDoError\<close>, and the body of the example.\<close>

definition body_success :: bytes where
  \<open>body_success =
     ''{"status": "success", "time": 0.123, "flags": {}, "data": {"test": "data"}}''\<close>

definition body_error :: bytes where
  \<open>body_error =
     ''{"status": "error", "time": 0.123, "flags": {}, "data": {"error": "test error"}, "error_code": "test-error", "message": "Test error message"}''\<close>

definition body_sent :: bytes where
  \<open>body_sent = ''{"status":"success","data":{"message_id":123,"token":"t"}}''\<close>

text \<open>
  An error body whose message is a number, a success body whose data has a message
  identifier that is a string, and a success body without data.
\<close>

definition body_no_data :: bytes where
  \<open>body_no_data = ''{"status":"success"}''\<close>

definition body_error_number :: bytes where
  \<open>body_error_number = ''{"status":"error","message":5}''\<close>

definition body_bad_data :: bytes where
  \<open>body_bad_data = ''{"status":"success","data":{"message_id":"abc"}}''\<close>

text \<open>The request of the example: one recipient and a sender, everything else empty.\<close>

definition example_request :: SendMessageRequest where
  "example_request =
     \<lparr>To = [''a@b.com''], CC = [], BCC = [], From = ''c@d.com'', Sender = [], Subject = [],
      Tag = [], ReplyTo = [], PlainBody = [], HTMLBody = [], Attachments = [], Headers = [],
      Bounce = False\<rparr>"

definition example_raw_request :: SendRawRequest where
  "example_raw_request =
     \<lparr>MailFrom = ''c@d.com'', RcptTo = [''a@b.com''], Data = [], Bounce = False\<rparr>"

section \<open>The scanner consumes its input\<close>

text \<open>
  Whatever the scanner reads, it leaves strictly less than it was given, and what it
  leaves is the end of what it was given.
\<close>

lemma skip_space_length: "length (skip_space s) \<le> length s"
  by (simp add: skip_space_def length_dropWhile_le)

lemma skip_space_Cons_length: "skip_space s = c # r \<Longrightarrow> length r < length s"
  using skip_space_length [of s] by simp

lemma scan_string_length: "scan_string cs = Some (lit, rest) \<Longrightarrow> length rest < length cs"
proof (induction cs arbitrary: lit rest rule: scan_string.induct)
  case 1
  then show ?case by simp
next
  case (2 c cs)
  show ?case
  proof (cases "c = CHR 0x22")
    case True
    with "2.prems" show ?thesis by simp
  next
    case q: False
    show ?thesis
    proof (cases "c = CHR 0x5C")
      case False
      with q "2.prems" "2.IH"(3) show ?thesis
        by (fastforce split: if_splits)
    next
      case True
      with "2.prems" obtain e r where cs: "cs = e # r"
        by (cases cs) auto
      show ?thesis
      proof (cases "e \<in> set ''bfnrt/'' \<or> e = CHR 0x5C \<or> e = CHR 0x22")
        case esc: True
        with True q cs "2.prems" obtain t where "scan_string r = Some (t, rest)"
          by auto
        with "2.IH"(1) [OF q True cs esc] cs show ?thesis by fastforce
      next
        case nesc: False
        with True q cs "2.prems" have u: "e = CHR ''u''"
          by (auto split: if_splits)
        with nesc True q cs "2.prems" obtain h1 h2 h3 h4 r' where r: "r = h1 # h2 # h3 # h4 # r'"
          by (auto split: list.splits)
        with u nesc True q cs "2.prems" have hex: "isHex h1 \<and> isHex h2 \<and> isHex h3 \<and> isHex h4"
          by (auto split: if_splits)
        with r u nesc True q cs "2.prems" obtain t where "scan_string r' = Some (t, rest)"
          by auto
        with "2.IH"(2) [OF q True cs nesc u r _ _ _ hex] r cs show ?thesis by fastforce
      qed
    qed
  qed
qed


lemma scan_digits_length: "scan_digits s = Some (ds, r) \<Longrightarrow> length r < length s"
proof -
  assume a: "scan_digits s = Some (ds, r)"
  then have "takeWhile isDigit s \<noteq> []" and "r = dropWhile isDigit s"
    by (auto simp: scan_digits_def Let_def split: if_splits)
  moreover have "length (takeWhile isDigit s) + length (dropWhile isDigit s) = length s"
    by (metis length_append takeWhile_dropWhile_id)
  ultimately show ?thesis
    by (cases "takeWhile isDigit s") auto
qed

lemma scan_int_part_length: "scan_int_part s = Some (ip, r) \<Longrightarrow> length r < length s"
  by (auto simp: scan_int_part_def split: list.splits if_splits dest: scan_digits_length)

lemma scan_frac_part_length: "scan_frac_part s = Some (fp, r) \<Longrightarrow> length r \<le> length s"
  by (auto simp: scan_frac_part_def split: list.splits if_splits dest!: scan_digits_length)

lemma scan_exp_part_length: "scan_exp_part s = Some (ep, r) \<Longrightarrow> length r \<le> length s"
  by (auto simp: scan_exp_part_def split: list.splits if_splits dest!: scan_digits_length)

lemma scan_number_length:
  assumes "scan_number s = Some (lit, r)"
  shows "length r < length s"
proof -
  from assms obtain ip s2 fp s3 ep where
    "scan_int_part (drop (length (case s of [] \<Rightarrow> [] | c # _ \<Rightarrow> if c = CHR ''-'' then [c] else [])) s)
       = Some (ip, s2)"
    "scan_frac_part s2 = Some (fp, s3)" "scan_exp_part s3 = Some (ep, r)"
    by (auto simp: scan_number_def Let_def split: option.splits)
  from scan_int_part_length [OF this(1)] scan_frac_part_length [OF this(2)]
    scan_exp_part_length [OF this(3)]
  show ?thesis by simp
qed

lemma scan_literal_length: "lit \<noteq> [] \<Longrightarrow> scan_literal lit s = Some r \<Longrightarrow> length r < length s"
  by (cases lit; cases s) (auto simp: scan_literal_def split: if_splits)

lemma parse_length:
  "parse_value n d s = Some (v, r) \<Longrightarrow> length r < length s"
  "parse_elements n d s = Some (vs, r) \<Longrightarrow> length r < length s"
  "parse_members n d s = Some (ms, r) \<Longrightarrow> length r < length s"
proof (induction n d s and n d s and n d s arbitrary: v r and vs r and ms r
    rule: parse_value_parse_elements_parse_members.induct)
  case (1 d s)
  then show ?case by simp
next
  case (2 n d s)
  from "2.prems" obtain c cs where s: "s = c # cs"
    by (cases s) auto
  consider (obj) "c = CHR ''{''" | (arr) "c \<noteq> CHR ''{''" "c = CHR ''[''"
    | (str) "c \<noteq> CHR ''{''" "c \<noteq> CHR ''[''" "c = CHR 0x22"
    | (other) "c \<noteq> CHR ''{''" "c \<noteq> CHR ''[''" "c \<noteq> CHR 0x22"
    by blast
  then show ?case
  proof cases
    case obj
    with "2.prems" s have d: "\<not> maxNestingDepth \<le> d"
      by (auto split: if_splits)
    from "2.prems" s obj d obtain c' r0 where sk: "skip_space cs = c' # r0"
      by (cases "skip_space cs") auto
    show ?thesis
    proof (cases "c' = CHR ''}''")
      case True
      with "2.prems" s obj d sk have "r = r0" by simp
      with skip_space_Cons_length [OF sk] s show ?thesis by simp
    next
      case False
      with "2.prems" s obj d sk obtain ms where "parse_members n (Suc d) (c' # r0) = Some (ms, r)"
        by auto
      from "2.IH"(1) [OF s obj d sk False this] skip_space_length [of cs] sk s
      show ?thesis by simp
    qed
  next
    case arr
    with "2.prems" s have d: "\<not> maxNestingDepth \<le> d"
      by (auto split: if_splits)
    from "2.prems" s arr d obtain c' r0 where sk: "skip_space cs = c' # r0"
      by (cases "skip_space cs") auto
    show ?thesis
    proof (cases "c' = CHR '']''")
      case True
      with "2.prems" s arr d sk have "r = r0" by simp
      with skip_space_Cons_length [OF sk] s show ?thesis by simp
    next
      case False
      with "2.prems" s arr d sk obtain vs where "parse_elements n (Suc d) (c' # r0) = Some (vs, r)"
        by auto
      from "2.IH"(2) [OF s arr(1) arr(2) d sk False this] skip_space_length [of cs] sk s
      show ?thesis by simp
    qed
  next
    case str
    with "2.prems" s obtain lit where "scan_string cs = Some (lit, r)"
      by (auto split: option.splits)
    from scan_string_length [OF this] s show ?thesis by simp
  next
    case other
    with "2.prems" s show ?thesis
      by (auto split: if_splits dest: scan_number_length scan_literal_length [rotated])
  qed
next
  case (3 d s)
  then show ?case by simp
next
  case (4 n d s)
  from "4.prems" obtain v r1 where pv: "parse_value n d s = Some (v, r1)"
    by (auto split: option.splits)
  from "4.IH"(1) [OF pv] have l1: "length r1 < length s" .
  from "4.prems" pv obtain c r' where sk: "skip_space r1 = c # r'"
    by (cases "skip_space r1") (auto simp: Let_def)
  show ?case
  proof (cases "c = CHR '',''")
    case True
    with "4.prems" pv sk obtain vs' where "parse_elements n d (skip_space r') = Some (vs', r)"
      by (auto simp: Let_def)
    from "4.IH"(2) [OF pv refl refl sk True this] skip_space_length [of r']
      skip_space_Cons_length [OF sk] l1
    show ?thesis by simp
  next
    case False
    with "4.prems" pv sk have "r = r'"
      by (auto simp: Let_def split: if_splits)
    with skip_space_Cons_length [OF sk] l1 show ?thesis by simp
  qed
next
  case (5 d s)
  then show ?case by simp
next
  case (6 n d s)
  from "6.prems" obtain c cs where s: "s = c # cs"
    by (cases s) auto
  with "6.prems" have q: "\<not> c \<noteq> CHR 0x22"
    by (auto split: if_splits)
  from "6.prems" s q obtain lit r1 where ss: "scan_string cs = Some (lit, r1)"
    by (auto split: option.splits)
  from "6.prems" s q ss obtain key where uq: "unquote lit = Some key"
    by (auto split: option.splits)
  from "6.prems" s q ss uq obtain c1 r2 where sk1: "skip_space r1 = c1 # r2"
    by (cases "skip_space r1") auto
  from "6.prems" s q ss uq sk1 have col: "\<not> c1 \<noteq> CHR '':''"
    by (auto split: if_splits)
  from "6.prems" s q ss uq sk1 col obtain v r3 where pv: "parse_value n d (skip_space r2) = Some (v, r3)"
    by (auto simp: Let_def split: option.splits)
  from "6.IH"(1) [OF s q ss refl uq sk1 col refl pv]
  have l3: "length r3 < length (skip_space r2)" .
  from "6.prems" s q ss uq sk1 col pv obtain c3 r4 where sk3: "skip_space r3 = c3 # r4"
    by (cases "skip_space r3") (auto simp: Let_def)
  have base: "length r4 < length s"
    using skip_space_Cons_length [OF sk3] l3 skip_space_length [of r2]
      skip_space_Cons_length [OF sk1] scan_string_length [OF ss] s
    by simp
  show ?case
  proof (cases "c3 = CHR '',''")
    case True
    with "6.prems" s q ss uq sk1 col pv sk3 obtain ms' where
      "parse_members n d (skip_space r4) = Some (ms', r)"
      by (auto simp: Let_def)
    from "6.IH"(2) [OF s q ss refl uq sk1 col refl pv refl refl sk3 True this]
      skip_space_length [of r4] base
    show ?thesis by simp
  next
    case False
    with "6.prems" s q ss uq sk1 col pv sk3 have "r = r4"
      by (auto simp: Let_def split: if_splits)
    with base show ?thesis by simp
  qed
qed

lemma skip_space_suffix: "suffix (skip_space s) s"
  by (simp add: skip_space_def suffix_dropWhile)

lemma skip_space_Cons_suffix: "skip_space s = c # r \<Longrightarrow> suffix r s"
  using skip_space_suffix [of s] by (metis suffix_ConsD)

lemma scan_string_suffix: "scan_string cs = Some (lit, rest) \<Longrightarrow> suffix rest cs"
proof (induction cs arbitrary: lit rest rule: scan_string.induct)
  case 1
  then show ?case by simp
next
  case (2 c cs)
  show ?case
  proof (cases "c = CHR 0x22")
    case True
    with "2.prems" show ?thesis by (simp add: suffix_ConsI)
  next
    case q: False
    show ?thesis
    proof (cases "c = CHR 0x5C")
      case False
      with q "2.prems" "2.IH"(3) show ?thesis
        by (fastforce split: if_splits intro: suffix_ConsI)
    next
      case True
      with "2.prems" obtain e r where cs: "cs = e # r"
        by (cases cs) auto
      show ?thesis
      proof (cases "e \<in> set ''bfnrt/'' \<or> e = CHR 0x5C \<or> e = CHR 0x22")
        case esc: True
        with True q cs "2.prems" obtain t where "scan_string r = Some (t, rest)"
          by auto
        with "2.IH"(1) [OF q True cs esc] cs show ?thesis
          by (auto intro: suffix_ConsI)
      next
        case nesc: False
        with True q cs "2.prems" have u: "e = CHR ''u''"
          by (auto split: if_splits)
        with nesc True q cs "2.prems" obtain h1 h2 h3 h4 r' where r: "r = h1 # h2 # h3 # h4 # r'"
          by (auto split: list.splits)
        with u nesc True q cs "2.prems" have hex: "isHex h1 \<and> isHex h2 \<and> isHex h3 \<and> isHex h4"
          by (auto split: if_splits)
        with r u nesc True q cs "2.prems" obtain t where "scan_string r' = Some (t, rest)"
          by auto
        with "2.IH"(2) [OF q True cs nesc u r _ _ _ hex] r cs show ?thesis
          by (auto intro!: suffix_ConsI)
      qed
    qed
  qed
qed

lemma scan_digits_suffix: "scan_digits s = Some (ds, r) \<Longrightarrow> suffix r s"
  by (auto simp: scan_digits_def Let_def suffix_dropWhile split: if_splits)

lemma scan_int_part_suffix: "scan_int_part s = Some (ip, r) \<Longrightarrow> suffix r s"
  by (auto simp: scan_int_part_def split: list.splits if_splits
        dest: scan_digits_suffix intro: suffix_ConsI)

lemma scan_frac_part_suffix: "scan_frac_part s = Some (fp, r) \<Longrightarrow> suffix r s"
  by (auto simp: scan_frac_part_def split: list.splits if_splits
        dest!: scan_digits_suffix intro: suffix_ConsI)

lemma scan_exp_part_suffix: "scan_exp_part s = Some (ep, r) \<Longrightarrow> suffix r s"
  by (auto simp: scan_exp_part_def split: list.splits if_splits
        dest!: scan_digits_suffix intro: suffix_ConsI)

lemma scan_number_suffix:
  assumes "scan_number s = Some (lit, r)"
  shows "suffix r s"
proof -
  from assms obtain ip s2 fp s3 ep where
    "scan_int_part (drop (length (case s of [] \<Rightarrow> [] | c # _ \<Rightarrow> if c = CHR ''-'' then [c] else [])) s)
       = Some (ip, s2)"
    "scan_frac_part s2 = Some (fp, s3)" "scan_exp_part s3 = Some (ep, r)"
    by (auto simp: scan_number_def Let_def split: option.splits)
  from scan_int_part_suffix [OF this(1)] scan_frac_part_suffix [OF this(2)]
    scan_exp_part_suffix [OF this(3)]
  show ?thesis
    by (meson suffix_drop suffix_order.trans)
qed

lemma scan_literal_suffix: "scan_literal lit s = Some r \<Longrightarrow> suffix r s"
  by (auto simp: scan_literal_def suffix_drop split: if_splits)

lemma parse_suffix:
  "parse_value n d s = Some (v, r) \<Longrightarrow> suffix r s"
  "parse_elements n d s = Some (vs, r) \<Longrightarrow> suffix r s"
  "parse_members n d s = Some (ms, r) \<Longrightarrow> suffix r s"
proof (induction n d s and n d s and n d s arbitrary: v r and vs r and ms r
    rule: parse_value_parse_elements_parse_members.induct)
  case (1 d s)
  then show ?case by simp
next
  case (2 n d s)
  from "2.prems" obtain c cs where s: "s = c # cs"
    by (cases s) auto
  consider (obj) "c = CHR ''{''" | (arr) "c \<noteq> CHR ''{''" "c = CHR ''[''"
    | (str) "c \<noteq> CHR ''{''" "c \<noteq> CHR ''[''" "c = CHR 0x22"
    | (other) "c \<noteq> CHR ''{''" "c \<noteq> CHR ''[''" "c \<noteq> CHR 0x22"
    by blast
  then show ?case
  proof cases
    case obj
    with "2.prems" s have d: "\<not> maxNestingDepth \<le> d"
      by (auto split: if_splits)
    from "2.prems" s obj d obtain c' r0 where sk: "skip_space cs = c' # r0"
      by (cases "skip_space cs") auto
    show ?thesis
    proof (cases "c' = CHR ''}''")
      case True
      with "2.prems" s obj d sk have "r = r0" by simp
      with skip_space_Cons_suffix [OF sk] s show ?thesis by (simp add: suffix_ConsI)
    next
      case False
      with "2.prems" s obj d sk obtain ms where "parse_members n (Suc d) (c' # r0) = Some (ms, r)"
        by auto
      from "2.IH"(1) [OF s obj d sk False this] skip_space_suffix [of cs] sk s
      show ?thesis by (metis suffix_ConsI suffix_order.trans)
    qed
  next
    case arr
    with "2.prems" s have d: "\<not> maxNestingDepth \<le> d"
      by (auto split: if_splits)
    from "2.prems" s arr d obtain c' r0 where sk: "skip_space cs = c' # r0"
      by (cases "skip_space cs") auto
    show ?thesis
    proof (cases "c' = CHR '']''")
      case True
      with "2.prems" s arr d sk have "r = r0" by simp
      with skip_space_Cons_suffix [OF sk] s show ?thesis by (simp add: suffix_ConsI)
    next
      case False
      with "2.prems" s arr d sk obtain vs where "parse_elements n (Suc d) (c' # r0) = Some (vs, r)"
        by auto
      from "2.IH"(2) [OF s arr(1) arr(2) d sk False this] skip_space_suffix [of cs] sk s
      show ?thesis by (metis suffix_ConsI suffix_order.trans)
    qed
  next
    case str
    with "2.prems" s obtain lit where "scan_string cs = Some (lit, r)"
      by (auto split: option.splits)
    from scan_string_suffix [OF this] s show ?thesis by (simp add: suffix_ConsI)
  next
    case other
    with "2.prems" s show ?thesis
      by (auto split: if_splits dest: scan_number_suffix scan_literal_suffix)
  qed
next
  case (3 d s)
  then show ?case by simp
next
  case (4 n d s)
  from "4.prems" obtain v r1 where pv: "parse_value n d s = Some (v, r1)"
    by (auto split: option.splits)
  from "4.IH"(1) [OF pv] have l1: "suffix r1 s" .
  from "4.prems" pv obtain c r' where sk: "skip_space r1 = c # r'"
    by (cases "skip_space r1") (auto simp: Let_def)
  show ?case
  proof (cases "c = CHR '',''")
    case True
    with "4.prems" pv sk obtain vs' where "parse_elements n d (skip_space r') = Some (vs', r)"
      by (auto simp: Let_def)
    from "4.IH"(2) [OF pv refl refl sk True this] skip_space_suffix [of r']
      skip_space_Cons_suffix [OF sk] l1
    show ?thesis by (meson suffix_order.trans)
  next
    case False
    with "4.prems" pv sk have "r = r'"
      by (auto simp: Let_def split: if_splits)
    with skip_space_Cons_suffix [OF sk] l1 show ?thesis by (meson suffix_order.trans)
  qed
next
  case (5 d s)
  then show ?case by simp
next
  case (6 n d s)
  from "6.prems" obtain c cs where s: "s = c # cs"
    by (cases s) auto
  with "6.prems" have q: "\<not> c \<noteq> CHR 0x22"
    by (auto split: if_splits)
  from "6.prems" s q obtain lit r1 where ss: "scan_string cs = Some (lit, r1)"
    by (auto split: option.splits)
  from "6.prems" s q ss obtain key where uq: "unquote lit = Some key"
    by (auto split: option.splits)
  from "6.prems" s q ss uq obtain c1 r2 where sk1: "skip_space r1 = c1 # r2"
    by (cases "skip_space r1") auto
  from "6.prems" s q ss uq sk1 have col: "\<not> c1 \<noteq> CHR '':''"
    by (auto split: if_splits)
  from "6.prems" s q ss uq sk1 col obtain v r3 where pv: "parse_value n d (skip_space r2) = Some (v, r3)"
    by (auto simp: Let_def split: option.splits)
  from "6.IH"(1) [OF s q ss refl uq sk1 col refl pv]
  have l3: "suffix r3 (skip_space r2)" .
  from "6.prems" s q ss uq sk1 col pv obtain c3 r4 where sk3: "skip_space r3 = c3 # r4"
    by (cases "skip_space r3") (auto simp: Let_def)
  have "suffix (skip_space r2) s"
    using skip_space_suffix [of r2] skip_space_Cons_suffix [OF sk1] scan_string_suffix [OF ss] s
    by (metis suffix_ConsI suffix_order.trans)
  with l3 skip_space_Cons_suffix [OF sk3] have base: "suffix r4 s"
    by (meson suffix_order.trans)
  show ?case
  proof (cases "c3 = CHR '',''")
    case True
    with "6.prems" s q ss uq sk1 col pv sk3 obtain ms' where
      "parse_members n d (skip_space r4) = Some (ms', r)"
      by (auto simp: Let_def)
    from "6.IH"(2) [OF s q ss refl uq sk1 col refl pv refl refl sk3 True this]
      skip_space_suffix [of r4] base
    show ?thesis by (meson suffix_order.trans)
  next
    case False
    with "6.prems" s q ss uq sk1 col pv sk3 have "r = r4"
      by (auto simp: Let_def split: if_splits)
    with base show ?thesis by simp
  qed
qed

text \<open>
  The bound on the nested calls: a value, a list of elements or a list of members read
  with some bound is read in the same way with any bound that is at least the number of
  bytes read.  Hence \<open>json_parse\<close>, whose bound exceeds the length of the input, accepts
  whatever any bound accepts.
\<close>

lemma parse_fuel:
  "parse_value m d s = Some (v, r) \<Longrightarrow> length s - length r \<le> n \<Longrightarrow>
     parse_value n d s = Some (v, r)"
  "parse_elements m d s = Some (vs, r) \<Longrightarrow> length s - length r \<le> n \<Longrightarrow>
     parse_elements n d s = Some (vs, r)"
  "parse_members m d s = Some (ms, r) \<Longrightarrow> length s - length r \<le> n \<Longrightarrow>
     parse_members n d s = Some (ms, r)"
proof (induction m d s and m d s and m d s arbitrary: v r n and vs r n and ms r n
    rule: parse_value_parse_elements_parse_members.induct)
  case (1 d s)
  then show ?case by simp
next
  case (2 m d s)
  note pv = "2.prems"(1)
  from pv obtain c cs where s: "s = c # cs"
    by (cases s) auto
  from parse_length(1) [OF pv] "2.prems"(2) obtain n' where n: "n = Suc n'"
    by (cases n) auto
  consider (obj) "c = CHR ''{''" | (arr) "c \<noteq> CHR ''{''" "c = CHR ''[''"
    | (other) "c \<noteq> CHR ''{''" "c \<noteq> CHR ''[''"
    by blast
  then show ?case
  proof cases
    case obj
    with pv s have d: "\<not> maxNestingDepth \<le> d"
      by (auto split: if_splits)
    from pv s obj d obtain c' r0 where sk: "skip_space cs = c' # r0"
      by (cases "skip_space cs") auto
    show ?thesis
    proof (cases "c' = CHR ''}''")
      case True
      with pv s obj d sk n show ?thesis by simp
    next
      case False
      with pv s obj d sk obtain ms where pm: "parse_members m (Suc d) (c' # r0) = Some (ms, r)"
        and v: "v = JObject ms"
        by auto
      have "length (c' # r0) - length r \<le> n'"
        using "2.prems"(2) n s skip_space_length [of cs] sk by simp
      from "2.IH"(1) [OF s obj d sk False pm this] v s obj d sk False n
      show ?thesis by simp
    qed
  next
    case arr
    with pv s have d: "\<not> maxNestingDepth \<le> d"
      by (auto split: if_splits)
    from pv s arr d obtain c' r0 where sk: "skip_space cs = c' # r0"
      by (cases "skip_space cs") auto
    show ?thesis
    proof (cases "c' = CHR '']''")
      case True
      with pv s arr d sk n show ?thesis by simp
    next
      case False
      with pv s arr d sk obtain vs where pe: "parse_elements m (Suc d) (c' # r0) = Some (vs, r)"
        and v: "v = JArray vs"
        by auto
      have "length (c' # r0) - length r \<le> n'"
        using "2.prems"(2) n s skip_space_length [of cs] sk by simp
      from "2.IH"(2) [OF s arr(1) arr(2) d sk False pe this] v s arr d sk False n
      show ?thesis by simp
    qed
  next
    case other
    with pv s n show ?thesis by simp
  qed
next
  case (3 d s)
  then show ?case by simp
next
  case (4 m d s)
  note pe = "4.prems"(1)
  from pe obtain v r1 where pv: "parse_value m d s = Some (v, r1)"
    by (auto split: option.splits)
  from parse_length(1) [OF pv] have l1: "length r1 < length s" .
  from parse_length(2) [OF pe] "4.prems"(2) obtain n' where n: "n = Suc n'"
    by (cases n) auto
  from pe pv obtain c r' where sk: "skip_space r1 = c # r'"
    by (cases "skip_space r1") (auto simp: Let_def)
  note l2 = skip_space_Cons_length [OF sk]
  show ?case
  proof (cases "c = CHR '',''")
    case True
    with pe pv sk obtain vs' where pe': "parse_elements m d (skip_space r') = Some (vs', r)"
      and vs: "vs = (take (length s - length r1) s, v) # vs'"
      by (auto simp: Let_def)
    from parse_length(2) [OF pe'] have l3: "length r < length (skip_space r')" .
    have a: "length s - length r1 \<le> n'"
      using "4.prems"(2) n l1 l2 l3 skip_space_length [of r'] by simp
    have b: "length (skip_space r') - length r \<le> n'"
      using "4.prems"(2) n l1 l2 l3 skip_space_length [of r'] by simp
    from "4.IH"(1) [OF pv a] "4.IH"(2) [OF pv refl refl sk True pe' b] vs sk True n
    show ?thesis by (simp add: Let_def)
  next
    case False
    with pe pv sk have e: "c = CHR '']''" "r = r'" "vs = [(take (length s - length r1) s, v)]"
      by (auto simp: Let_def split: if_splits)
    have a: "length s - length r1 \<le> n'"
      using "4.prems"(2) n l1 l2 e by simp
    from "4.IH"(1) [OF pv a] e sk n show ?thesis by (simp add: Let_def)
  qed
next
  case (5 d s)
  then show ?case by simp
next
  case (6 m d s)
  note pm = "6.prems"(1)
  from pm obtain c cs where s: "s = c # cs"
    by (cases s) auto
  with pm have q: "\<not> c \<noteq> CHR 0x22"
    by (auto split: if_splits)
  from parse_length(3) [OF pm] "6.prems"(2) obtain n' where n: "n = Suc n'"
    by (cases n) auto
  from pm s q obtain lit r1 where ss: "scan_string cs = Some (lit, r1)"
    by (auto split: option.splits)
  from pm s q ss obtain key where uq: "unquote lit = Some key"
    by (auto split: option.splits)
  from pm s q ss uq obtain c1 r2 where sk1: "skip_space r1 = c1 # r2"
    by (cases "skip_space r1") auto
  from pm s q ss uq sk1 have col: "\<not> c1 \<noteq> CHR '':''"
    by (auto split: if_splits)
  from pm s q ss uq sk1 col obtain v r3 where pv: "parse_value m d (skip_space r2) = Some (v, r3)"
    by (auto simp: Let_def split: option.splits)
  from parse_length(1) [OF pv] have l3: "length r3 < length (skip_space r2)" .
  from pm s q ss uq sk1 col pv obtain c3 r4 where sk3: "skip_space r3 = c3 # r4"
    by (cases "skip_space r3") (auto simp: Let_def)
  have l2: "length (skip_space r2) < length s"
    using skip_space_length [of r2] skip_space_Cons_length [OF sk1] scan_string_length [OF ss] s
    by simp
  note l4 = skip_space_Cons_length [OF sk3]
  show ?case
  proof (cases "c3 = CHR '',''")
    case True
    with pm s q ss uq sk1 col pv sk3 obtain ms' where
      pm': "parse_members m d (skip_space r4) = Some (ms', r)"
      and ms: "ms = (key, take (length (skip_space r2) - length r3) (skip_space r2), v) # ms'"
      by (auto simp: Let_def)
    from parse_length(3) [OF pm'] have l5: "length r < length (skip_space r4)" .
    have a: "length (skip_space r2) - length r3 \<le> n'"
      using "6.prems"(2) n l2 l3 l4 l5 skip_space_length [of r4] by simp
    have b: "length (skip_space r4) - length r \<le> n'"
      using "6.prems"(2) n l2 l3 l4 l5 skip_space_length [of r4] by simp
    from "6.IH"(1) [OF s q ss refl uq sk1 col refl pv a]
      "6.IH"(2) [OF s q ss refl uq sk1 col refl pv refl refl sk3 True pm' b]
      ms s q ss uq sk1 col sk3 True n
    show ?thesis by (simp add: Let_def)
  next
    case False
    with pm s q ss uq sk1 col pv sk3 have e: "c3 = CHR ''}''" "r = r4"
      "ms = [(key, take (length (skip_space r2) - length r3) (skip_space r2), v)]"
      by (auto simp: Let_def split: if_splits)
    have a: "length (skip_space r2) - length r3 \<le> n'"
      using "6.prems"(2) n l2 l3 l4 e by simp
    from "6.IH"(1) [OF s q ss refl uq sk1 col refl pv a] e s q ss uq sk1 col sk3 n
    show ?thesis by (simp add: Let_def)
  qed
qed

theorem json_parse_fuel:
  assumes "parse_value m 0 (skip_space data) = Some (v, r)" and "skip_space r = []"
  shows "json_parse data = Some v"
proof -
  have "parse_value (Suc (length (skip_space data))) 0 (skip_space data) = Some (v, r)"
    using assms(1) by (rule parse_fuel(1)) simp
  with assms(2) show ?thesis
    by (simp add: json_parse_def Let_def)
qed

text \<open>
  A string literal that the scanner accepts can be unquoted: the parser refuses no input
  on account of \<open>unquote\<close>.
\<close>

lemma scan_string_Nil: "scan_string cs = Some ([], rest) \<Longrightarrow> cs = CHR 0x22 # rest"
  by (cases cs) (auto split: if_splits list.splits)

lemma scan_string_Cons:
  assumes "scan_string cs = Some (c # l, rest)"
  obtains
    (plain) cs' where "cs = c # cs'" "c \<noteq> CHR 0x22" "c \<noteq> CHR 0x5C" "\<not> byte c < 0x20"
      "scan_string cs' = Some (l, rest)"
  | (escape) e r t where "cs = c # e # r" "c = CHR 0x5C" "l = e # t"
      "e \<in> set ''bfnrt/'' \<or> e = CHR 0x5C \<or> e = CHR 0x22" "scan_string r = Some (t, rest)"
  | (unicode) h1 h2 h3 h4 r t where "cs = c # CHR ''u'' # h1 # h2 # h3 # h4 # r" "c = CHR 0x5C"
      "l = CHR ''u'' # h1 # h2 # h3 # h4 # t" "isHex h1" "isHex h2" "isHex h3" "isHex h4"
      "scan_string r = Some (t, rest)"
proof (cases cs)
  case Nil
  with assms show ?thesis by simp
next
  case (Cons c0 cs0)
  with assms have q: "c0 \<noteq> CHR 0x22" by (auto split: if_splits)
  show ?thesis
  proof (cases "c0 = CHR 0x5C")
    case False
    with assms Cons q show ?thesis
      by (intro plain [of cs0]) (auto split: if_splits)
  next
    case True
    with assms Cons obtain e r where cs0: "cs0 = e # r"
      by (cases cs0) auto
    show ?thesis
    proof (cases "e \<in> set ''bfnrt/'' \<or> e = CHR 0x5C \<or> e = CHR 0x22")
      case esc: True
      with assms Cons True cs0 q obtain t where "scan_string r = Some (t, rest)" "c # l = c0 # e # t"
        by auto
      with Cons True cs0 esc show ?thesis
        by (intro escape [of e r t]) auto
    next
      case nesc: False
      with assms Cons True cs0 q have u: "e = CHR ''u''"
        by (auto split: if_splits)
      with nesc assms Cons True cs0 q obtain h1 h2 h3 h4 r' where r: "r = h1 # h2 # h3 # h4 # r'"
        by (auto split: list.splits)
      with u nesc assms Cons True cs0 q have hex: "isHex h1" "isHex h2" "isHex h3" "isHex h4"
        by (auto split: if_splits)
      with r u nesc assms Cons True cs0 q obtain t where
        "scan_string r' = Some (t, rest)" "c # l = c0 # e # h1 # h2 # h3 # h4 # t"
        by auto
      with Cons True cs0 u r hex show ?thesis
        by (intro unicode [of h1 h2 h3 h4 r' t]) auto
    qed
  qed
qed

lemma scan_string_drop_high:
  "scan_string cs = Some (t, rest) \<Longrightarrow> k \<le> length t \<Longrightarrow> \<forall>i<k. 0x80 \<le> byte (t ! i) \<Longrightarrow>
   \<exists>cs'. scan_string cs' = Some (drop k t, rest)"
proof (induction k arbitrary: cs t)
  case 0
  then show ?case by auto
next
  case (Suc k)
  from Suc.prems(2) obtain c t' where t: "t = c # t'"
    by (cases t) auto
  from Suc.prems(3) t have hi: "0x80 \<le> byte c"
    by auto
  then have nb: "c \<noteq> CHR 0x5C"
    by (auto simp: byte_def)
  from Suc.prems(1) [unfolded t] obtain cs' where "scan_string cs' = Some (t', rest)"
    using nb by (cases rule: scan_string_Cons) auto
  moreover have "k \<le> length t'" using Suc.prems(2) t by simp
  moreover have "\<forall>i<k. 0x80 \<le> byte (t' ! i)"
    using Suc.prems(3) t by auto
  ultimately obtain cs'' where "scan_string cs'' = Some (drop k t', rest)"
    using Suc.IH by blast
  with t show ?case by auto
qed

lemma first_lo: "first p0 = Some (sz, lo, hi) \<Longrightarrow> 0x80 \<le> lo \<and> 2 \<le> sz \<and> sz \<le> 4"
  by (auto simp: first_def split: if_splits)

lemma DecodeRune_high:
  assumes "k = snd (DecodeRune (c # t)) - 1"
  shows "k \<le> length t \<and> (\<forall>i<k. 0x80 \<le> byte (t ! i))"
proof (cases "byte c < 0x80")
  case True
  with assms show ?thesis by (simp add: DecodeRune_def)
next
  case hi: False
  show ?thesis
  proof (cases "first (byte c)")
    case None
    with assms hi show ?thesis by (simp add: DecodeRune_def)
  next
    case (Some a)
    obtain sz lo hi' where a: "a = (sz, lo, hi')" by (cases a)
    note f = first_lo [OF Some [unfolded a]]
    show ?thesis
    proof (cases "length (c # t) < sz")
      case True
      with assms hi Some a show ?thesis by (simp add: DecodeRune_def)
    next
      case len: False
      then obtain b1 t1 where t: "t = b1 # t1"
        using f by (cases t) auto
      show ?thesis
      proof (cases "byte b1 < lo \<or> hi' < byte b1")
        case True
        with assms hi Some a len t show ?thesis by (simp add: DecodeRune_def)
      next
        case b1: False
        with f have h1: "0x80 \<le> byte b1" by auto
        show ?thesis
        proof (cases "sz \<le> 2")
          case True
          with assms hi Some a len t b1 h1 show ?thesis by (simp add: DecodeRune_def)
        next
          case sz2: False
          with len t obtain b2 t2 where t1: "t1 = b2 # t2"
            by (cases t1) auto
          show ?thesis
          proof (cases "cont (byte b2)")
            case False
            with assms hi Some a len t t1 b1 sz2 show ?thesis by (simp add: DecodeRune_def)
          next
            case c2: True
            then have h2: "0x80 \<le> byte b2" by (simp add: cont_def)
            show ?thesis
            proof (cases "sz \<le> 3")
              case True
              with assms hi Some a len t t1 b1 sz2 c2 h1 h2 show ?thesis
                by (auto simp: DecodeRune_def less_Suc_eq numeral_2_eq_2)
            next
              case sz3: False
              with len t t1 obtain b3 t3 where t2: "t2 = b3 # t3"
                by (cases t2) auto
              show ?thesis
              proof (cases "cont (byte b3)")
                case False
                with assms hi Some a len t t1 t2 b1 sz2 sz3 c2 show ?thesis
                  by (simp add: DecodeRune_def)
              next
                case c3: True
                then have h3: "0x80 \<le> byte b3" by (simp add: cont_def)
                with assms hi Some a len t t1 t2 b1 sz2 sz3 c2 c3 h1 h2 show ?thesis
                  by (auto simp: DecodeRune_def less_Suc_eq numeral_3_eq_3)
              qed
            qed
          qed
        qed
      qed
    qed
  qed
qed

lemma unescape_Some:
  "e \<in> set ''bfnrt/'' \<or> e = CHR 0x5C \<or> e = CHR 0x22 \<Longrightarrow> \<exists>b. unescape e = Some b"
  by (auto simp: unescape_def)

lemma getu4_Some:
  assumes "getu4 t = Some rr"
  obtains g1 g2 g3 g4 t2 where "t = CHR 0x5C # CHR ''u'' # g1 # g2 # g3 # g4 # t2"
    "isHex g1" "isHex g2" "isHex g3" "isHex g4"
  using assms by (cases t rule: getu4.cases) (auto split: if_splits)

lemma unquote_scanned: "scan_string cs = Some (l, rest) \<Longrightarrow> \<exists>t. unquote l = Some t"
proof (induction l arbitrary: cs rule: length_induct)
  case (1 l)
  note IH = "1.IH" [rule_format]
  show ?case
  proof (cases l)
    case Nil
    then show ?thesis by simp
  next
    case (Cons c l')
    from "1.prems" [unfolded Cons] show ?thesis
    proof (cases rule: scan_string_Cons)
      case (plain cs')
      show ?thesis
      proof (cases "byte c < 0x80")
        case True
        have "length l' < length l" using Cons by simp
        from IH [OF this plain(5)] obtain t where "unquote l' = Some t" ..
        with plain True Cons show ?thesis by simp
      next
        case False
        let ?k = "snd (DecodeRune (c # l')) - 1"
        from DecodeRune_high [OF refl, of c l']
        have "?k \<le> length l'" "\<forall>i<?k. 0x80 \<le> byte (l' ! i)" by auto
        from scan_string_drop_high [OF plain(5) this]
        obtain cs'' where sc: "scan_string cs'' = Some (drop ?k l', rest)" ..
        have "length (drop ?k l') < length l" using Cons by simp
        from IH [OF this sc] obtain t where "unquote (drop ?k l') = Some t" ..
        with plain False Cons show ?thesis by (simp add: Let_def)
      qed
    next
      case (escape e r t)
      from unescape_Some [OF escape(4)] obtain b where b: "unescape e = Some b" ..
      from escape(4) have nu: "e \<noteq> CHR ''u''" by auto
      have "length t < length l" using Cons escape(3) by simp
      from IH [OF this escape(5)] obtain t' where "unquote t = Some t'" ..
      with escape b nu Cons show ?thesis by simp
    next
      case (unicode h1 h2 h3 h4 r t)
      let ?rr = "((hexval h1 * 16 + hexval h2) * 16 + hexval h3) * 16 + hexval h4"
      have g: "getu4 (c # l') = Some ?rr"
        using unicode by simp
      have "length t < length l" using Cons unicode(3) by simp
      from IH [OF this unicode(8)] obtain t' where t': "unquote t = Some t'" ..
      show ?thesis
      proof (cases "isSurrogate ?rr \<and> utf16_DecodeRune ?rr (getu4 t) \<noteq> RuneError")
        case False
        with unicode g t' Cons show ?thesis by (auto simp: Let_def)
      next
        case True
        then have "getu4 t \<noteq> None"
          by (cases "getu4 t") (simp_all add: utf16_DecodeRune_def)
        then obtain rr1 where "getu4 t = Some rr1" by auto
        then obtain g1 g2 g3 g4 t2 where t: "t = CHR 0x5C # CHR ''u'' # g1 # g2 # g3 # g4 # t2"
          by (rule getu4_Some)
        from unicode(8) [unfolded t] obtain r2 where sc: "scan_string r2 = Some (t2, rest)"
          by (cases rule: scan_string_Cons) auto
        have "length t2 < length l" using Cons unicode(3) t by simp
        from IH [OF this sc] obtain t2' where "unquote t2 = Some t2'" ..
        with unicode g True t Cons show ?thesis by (auto simp: Let_def)
      qed
    qed
  qed
qed

text \<open>
  The bytes kept with the members of an object are slices of the input.
\<close>

lemma take_suffix_sublist:
  assumes "suffix r s'" and "suffix s' s"
  shows "sublist (take (length s' - length r) s') s"
proof -
  from assms(1) obtain c where c: "s' = c @ r" by (auto simp: suffix_def)
  from assms(2) obtain p where p: "s = p @ s'" by (auto simp: suffix_def)
  have "take (length s' - length r) s' = c" using c by simp
  with c p show ?thesis
    by (auto simp: sublist_def)
qed

lemma sublist_suffix_trans: "sublist xs ys \<Longrightarrow> suffix ys zs \<Longrightarrow> sublist xs zs"
  by (metis sublist_order.order.trans suffix_imp_sublist)

lemma parse_members_raw:
  "parse_members n d s = Some (ms, r) \<Longrightarrow> (k, raw, v) \<in> set ms \<Longrightarrow> sublist raw s"
proof (induction n arbitrary: s ms r)
  case 0
  then show ?case by simp
next
  case (Suc n)
  note pm = Suc.prems(1)
  from pm obtain c cs where s: "s = c # cs"
    by (cases s) auto
  with pm have q: "\<not> c \<noteq> CHR 0x22"
    by (auto split: if_splits)
  from pm s q obtain lit r1 where ss: "scan_string cs = Some (lit, r1)"
    by (auto split: option.splits)
  from pm s q ss obtain key where uq: "unquote lit = Some key"
    by (auto split: option.splits)
  from pm s q ss uq obtain c1 r2 where sk1: "skip_space r1 = c1 # r2"
    by (cases "skip_space r1") auto
  from pm s q ss uq sk1 have col: "\<not> c1 \<noteq> CHR '':''"
    by (auto split: if_splits)
  from pm s q ss uq sk1 col obtain v1 r3 where pv: "parse_value n d (skip_space r2) = Some (v1, r3)"
    by (auto simp: Let_def split: option.splits)
  from parse_suffix(1) [OF pv] have l3: "suffix r3 (skip_space r2)" .
  from pm s q ss uq sk1 col pv obtain c3 r4 where sk3: "skip_space r3 = c3 # r4"
    by (cases "skip_space r3") (auto simp: Let_def)
  have l2: "suffix (skip_space r2) s"
    using skip_space_suffix [of r2] skip_space_Cons_suffix [OF sk1] scan_string_suffix [OF ss] s
    by (metis suffix_ConsI suffix_order.trans)
  with l3 skip_space_Cons_suffix [OF sk3] have base: "suffix r4 s"
    by (meson suffix_order.trans)
  have first: "sublist (take (length (skip_space r2) - length r3) (skip_space r2)) s"
    using l3 l2 by (rule take_suffix_sublist)
  show ?case
  proof (cases "c3 = CHR '',''")
    case True
    with pm s q ss uq sk1 col pv sk3 obtain ms' where
      pm': "parse_members n d (skip_space r4) = Some (ms', r)"
      and ms: "ms = (key, take (length (skip_space r2) - length r3) (skip_space r2), v1) # ms'"
      by (auto simp: Let_def)
    from Suc.prems(2) ms consider "raw = take (length (skip_space r2) - length r3) (skip_space r2)"
      | "(k, raw, v) \<in> set ms'"
      by auto
    then show ?thesis
    proof cases
      case 1
      with first show ?thesis by simp
    next
      case 2
      from Suc.IH [OF pm' 2] have "sublist raw (skip_space r4)" .
      moreover have "suffix (skip_space r4) s"
        using skip_space_suffix [of r4] base by (meson suffix_order.trans)
      ultimately show ?thesis by (rule sublist_suffix_trans)
    qed
  next
    case False
    with pm s q ss uq sk1 col pv sk3 have
      "ms = [(key, take (length (skip_space r2) - length r3) (skip_space r2), v1)]"
      by (auto simp: Let_def split: if_splits)
    with Suc.prems(2) first show ?thesis by simp
  qed
qed

lemma json_parse_member_raw:
  assumes "json_parse data = Some (JObject ms)" and "(k, raw, v) \<in> set ms"
  shows "sublist raw data"
proof -
  let ?s = "skip_space data"
  from assms(1) obtain r where pv: "parse_value (Suc (length ?s)) 0 ?s = Some (JObject ms, r)"
    by (auto simp: json_parse_def Let_def split: option.splits if_splits)
  from pv obtain c cs where s: "?s = c # cs"
    by (cases ?s) auto
  from assms(2) have ne: "ms \<noteq> []" by auto
  from pv s have obj: "c = CHR ''{''"
    by (auto split: if_splits option.splits list.splits)
  from pv s obj obtain c' r0 where sk: "skip_space cs = c' # r0"
    by (cases "skip_space cs") (auto split: if_splits)
  from pv s obj sk ne have "parse_members (length ?s) (Suc 0) (c' # r0) = Some (ms, r)"
    by (auto split: if_splits)
  from parse_members_raw [OF this assms(2)] have "sublist raw (c' # r0)" .
  moreover have "suffix (c' # r0) data"
    using skip_space_suffix [of cs] sk s skip_space_suffix [of data]
    by (metis suffix_ConsI suffix_order.trans)
  ultimately show ?thesis by (rule sublist_suffix_trans)
qed

lemma field_member_mem:
  "field_member fs name ms = Some (raw, v) \<Longrightarrow> \<exists>k. (k, raw, v) \<in> set ms"
proof -
  assume a: "field_member fs name ms = Some (raw, v)"
  let ?sel = "filter (\<lambda>m. selects fs name (fst m)) ms"
  from a have ne: "?sel \<noteq> []" and l: "snd (last ?sel) = (raw, v)"
    by (auto simp: field_member_def Let_def split: if_splits)
  from ne have "last ?sel \<in> set ?sel" by (rule last_in_set)
  then have "last ?sel \<in> set ms" by simp
  with l show ?thesis
    by (metis prod.collapse)
qed

section \<open>Header keys and methods\<close>

text \<open>
  The three header names the client sets, in canonical form, and its one method.
\<close>

lemma Canonical_Content_Type: "CanonicalMIMEHeaderKey ''Content-Type'' = ''Content-Type''"
  by code_simp

lemma Canonical_Accept: "CanonicalMIMEHeaderKey ''Accept'' = ''Accept''"
  by code_simp

lemma Canonical_API_Key: "CanonicalMIMEHeaderKey ''X-Server-API-Key'' = ''X-Server-Api-Key''"
  by code_simp

lemmas Canonical_keys = Canonical_Content_Type Canonical_Accept Canonical_API_Key

lemma validMethod_POST: "validMethod ''POST''"
  by code_simp

section \<open>The transport wrapper, phase by phase\<close>

text \<open>
  \<open>do\<close> builds its request, hands it to the HTTP client and sorts the answer:
  \<open>request_of\<close> is the first phase, and no more than that.
\<close>

lemma do_request_of:
  "do env method path body w =
     (case request_of env (client w) method path body of
        Inl err \<Rightarrow> (Inl err, w)
      | Inr req \<Rightarrow>
          (case http_Do env (HTTPClient (client w)) req (net w) of
             (Inl err, n) \<Rightarrow> (Inl (Errorf ''error performing request: %w'' err), w\<lparr>net := n\<rparr>)
           | (Inr resp, n) \<Rightarrow>
               (case http_Response.Body resp of
                  Inl err \<Rightarrow> (Inl (Errorf ''error reading response body: %w'' err), w\<lparr>net := n\<rparr>)
                | Inr respBody \<Rightarrow>
                    if StatusCode resp \<noteq> StatusOK then
                      (case json_Unmarshal_Error respBody of
                         Inl err \<Rightarrow>
                           (Inl (Errorf ''error unmarshaling error response: %w'' err), w\<lparr>net := n\<rparr>)
                       | Inr apiError \<Rightarrow> (Inl (APIError apiError), w\<lparr>net := n\<rparr>))
                    else
                      (case json_Unmarshal_Response respBody of
                         Inl err \<Rightarrow> (Inl (Errorf ''error unmarshaling response: %w'' err), w\<lparr>net := n\<rparr>)
                       | Inr apiResp \<Rightarrow>
                           if Response.Status apiResp \<noteq> ''success'' then
                             (case json_Unmarshal_Error respBody of
                                Inl err \<Rightarrow>
                                  (Inl (Errorf ''error unmarshaling error response: %w'' err),
                                   w\<lparr>net := n\<rparr>)
                              | Inr apiError \<Rightarrow> (Inl (APIError apiError), w\<lparr>net := n\<rparr>))
                           else (Inr apiResp, w\<lparr>net := n\<rparr>)))))"
  unfolding do_def request_of_def Let_def
  by (simp split: option.split sum.split)

lemma do_answered:
  assumes "answered env method path body w resp n"
  shows "do env method path body w =
     (case http_Response.Body resp of
        Inl err \<Rightarrow> (Inl (Errorf ''error reading response body: %w'' err), w\<lparr>net := n\<rparr>)
      | Inr respBody \<Rightarrow>
          if StatusCode resp \<noteq> StatusOK then
            (case json_Unmarshal_Error respBody of
               Inl err \<Rightarrow>
                 (Inl (Errorf ''error unmarshaling error response: %w'' err), w\<lparr>net := n\<rparr>)
             | Inr apiError \<Rightarrow> (Inl (APIError apiError), w\<lparr>net := n\<rparr>))
          else
            (case json_Unmarshal_Response respBody of
               Inl err \<Rightarrow> (Inl (Errorf ''error unmarshaling response: %w'' err), w\<lparr>net := n\<rparr>)
             | Inr apiResp \<Rightarrow>
                 if Response.Status apiResp \<noteq> ''success'' then
                   (case json_Unmarshal_Error respBody of
                      Inl err \<Rightarrow>
                        (Inl (Errorf ''error unmarshaling error response: %w'' err),
                         w\<lparr>net := n\<rparr>)
                    | Inr apiError \<Rightarrow> (Inl (APIError apiError), w\<lparr>net := n\<rparr>))
                 else (Inr apiResp, w\<lparr>net := n\<rparr>)))"
  using assms unfolding answered_def
  by (auto simp: do_request_of)

lemma request_of_Inr:
  assumes "request_of env c method path body = Inr req"
  shows "Method req = (if method = [] then ''GET'' else method)"
    and "URL req = BaseURL c @ path"
    and "Header req = [''Content-Type'' \<mapsto> [''application/json''],
                       ''Accept'' \<mapsto> [''application/json''],
                       ''X-Server-Api-Key'' \<mapsto> [APIKey c]]"
  using assms
  by (auto simp: request_of_def http_NewRequest_def Let_def Header_Set_def Canonical_keys
        split: option.splits sum.splits if_splits)

text \<open>
  A successful return of \<open>do\<close> has passed the test of the status field.
\<close>

lemma do_Inr_success:
  "do env method path body w = (Inr r, w') \<Longrightarrow> Response.Status r = ''success''"
  unfolding do_request_of
  by (auto split: sum.splits prod.splits if_splits)

text \<open>
  \<open>do\<close> returns an envelope exactly when the request was sent, the answer had status
  200 and a body that could be read, and the body decoded as an envelope with the status
  \<^verbatim>\<open>"success"\<close>; every other course ends in an error.
\<close>

lemma do_Inr_iff:
  "do env method path body w = (Inr r, w') \<longleftrightarrow>
     (\<exists>resp n respBody.
        answered env method path body w resp n \<and>
        StatusCode resp = StatusOK \<and>
        http_Response.Body resp = Inr respBody \<and>
        json_Unmarshal_Response respBody = Inr r \<and>
        Response.Status r = ''success'' \<and>
        w' = w\<lparr>net := n\<rparr>)"
proof
  assume a: "do env method path body w = (Inr r, w')"
  then obtain req where req: "request_of env (client w) method path body = Inr req"
    unfolding do_request_of by (auto split: sum.splits)
  obtain x n where d: "http_Do env (HTTPClient (client w)) req (net w) = (x, n)"
    by (cases "http_Do env (HTTPClient (client w)) req (net w)")
  with a req obtain resp where x: "x = Inr resp"
    unfolding do_request_of by (auto split: sum.splits)
  from req d x have ans: "answered env method path body w resp n"
    by (auto simp: answered_def)
  from a show "\<exists>resp n respBody.
        answered env method path body w resp n \<and>
        StatusCode resp = StatusOK \<and>
        http_Response.Body resp = Inr respBody \<and>
        json_Unmarshal_Response respBody = Inr r \<and>
        Response.Status r = ''success'' \<and>
        w' = w\<lparr>net := n\<rparr>"
    unfolding do_answered [OF ans]
    by (intro exI [of _ resp] exI [of _ n]) (auto simp: ans split: sum.splits if_splits)
next
  assume "\<exists>resp n respBody.
        answered env method path body w resp n \<and>
        StatusCode resp = StatusOK \<and>
        http_Response.Body resp = Inr respBody \<and>
        json_Unmarshal_Response respBody = Inr r \<and>
        Response.Status r = ''success'' \<and>
        w' = w\<lparr>net := n\<rparr>"
  then show "do env method path body w = (Inr r, w')"
    by (auto simp: do_answered)
qed

text \<open>
  No method writes to the client.
\<close>

lemma do_client: "client (snd (do env method path body w)) = client w"
  unfolding do_request_of
  by (auto split: sum.splits prod.splits if_splits)

lemma post_client: "client (snd (post env path body w)) = client w"
  by (simp add: post_def do_client)

lemma GetMessage_client: "client (snd (GetMessage env id' w)) = client w"
  using post_client [of env "''/messages/message''" "Some (Body_id id')" w]
  by (auto simp: GetMessage_def split: prod.splits sum.splits)

lemma GetMessageDeliveries_client: "client (snd (GetMessageDeliveries env id' w)) = client w"
  using post_client [of env "''/messages/deliveries''" "Some (Body_id id')" w]
  by (auto simp: GetMessageDeliveries_def split: prod.splits sum.splits)

lemma SendMessage_client: "client (snd (SendMessage env req w)) = client w"
  using post_client [of env "''/send/message''" "Some (Body_SendMessageRequest req)" w]
  by (auto simp: SendMessage_def split: prod.splits sum.splits)

lemma SendRaw_client: "client (snd (SendRaw env req w)) = client w"
  using post_client [of env "''/send/raw''" "Some (Body_SendRawRequest req)" w]
  by (auto simp: SendRaw_def split: prod.splits sum.splits)

text \<open>
  With a recording transport, the record after a call is the record before, followed by
  the request of the call if one was built.  An endpoint method leaves the world that its
  call of \<open>post\<close> leaves.
\<close>

lemma do_recording:
  assumes "http_Do env = recording reply"
  shows "net (snd (do env method path body w)) =
           (case request_of env (client w) method path body of
              Inl err \<Rightarrow> net w
            | Inr req \<Rightarrow> net w @ [req])"
  unfolding do_request_of assms recording_def
  by (auto split: sum.splits)



section \<open>What the decoder stores in a field\<close>

text \<open>
  The members of an object are stored from left to right.  After all of them, a
  \<^verbatim>\<open>json.RawMessage\<close> field holds the bytes of the last member that selects it, and a
  string field holds the string of the last member that selects it, if that member is a
  string.
\<close>

lemma lookup_field_mem: "lookup_field fs key = Some f \<Longrightarrow> f \<in> set fs"
  unfolding lookup_field_def
  by (auto split: option.splits simp: find_Some_iff in_set_conv_nth)

lemma field_member_snoc:
  "field_member fs name (ms @ [m]) =
     (if selects fs name (fst m) then Some (snd m) else field_member fs name ms)"
  by (simp add: field_member_def)

lemma store_member_Response_Data:
  "Response.Data (fst (store_member Response_fields st m)) =
     (if selects Response_fields ''data'' (fst m) then fst (snd m) else Response.Data (fst st))"
proof (cases "lookup_field Response_fields (fst m)")
  case None
  then show ?thesis by (simp add: store_member_def selects_def)
next
  case (Some f)
  then have "f \<in> set Response_fields" by (rule lookup_field_mem)
  then show ?thesis
    using Some
    unfolding Response_fields_def
    by (auto simp: store_member_def selects_def store_string_def store_float64_def
          store_RawMessage_def split: jvalue.splits option.splits)
qed

lemma Response_Data_fold:
  "Response.Data (fst (foldl (store_member Response_fields) st ms)) =
     (case field_member Response_fields ''data'' ms of
        None \<Rightarrow> Response.Data (fst st)
      | Some (raw, v) \<Rightarrow> raw)"
proof (induction ms rule: rev_induct)
  case Nil
  show ?case by (simp add: field_member_def)
next
  case (snoc m ms)
  show ?case
    by (simp add: store_member_Response_Data field_member_snoc snoc.IH split: prod.splits)
qed

lemma store_member_Error_Message:
  "Message (fst (store_member Error_fields st m)) =
     (if selects Error_fields ''message'' (fst m)
      then (case snd (snd m) of JString s \<Rightarrow> s | _ \<Rightarrow> Message (fst st))
      else Message (fst st))"
proof (cases "lookup_field Error_fields (fst m)")
  case None
  then show ?thesis by (simp add: store_member_def selects_def)
next
  case (Some f)
  then have "f \<in> set Error_fields" by (rule lookup_field_mem)
  then show ?thesis
    using Some
    unfolding Error_fields_def
    by (auto simp: store_member_def selects_def store_string_def store_float64_def
          store_RawMessage_def split: jvalue.splits option.splits)
qed

lemma Error_Message_fold:
  "field_member Error_fields ''message'' ms = Some (raw, JString s) \<Longrightarrow>
   Message (fst (foldl (store_member Error_fields) st ms)) = s"
proof (induction ms rule: rev_induct)
  case Nil
  then show ?case by (simp add: field_member_def)
next
  case (snoc m ms)
  then show ?case
    by (auto simp: store_member_Error_Message field_member_snoc split: if_splits)
qed

lemma Unmarshal_Error_Message:
  assumes "json_Unmarshal_Error data = Inr e"
      and "json_parse data = Some (JObject ms)"
      and "field_member Error_fields ''message'' ms = Some (raw, JString s)"
  shows "Message e = s"
proof -
  from assms(1,2) have "fst (foldl (store_member Error_fields) (Error_zero, None) ms) = e"
    by (auto simp: json_Unmarshal_Error_def json_Unmarshal_def store_struct_def
          split: sum.splits prod.splits option.splits)
  with Error_Message_fold [OF assms(3)] show ?thesis by blast
qed

lemma Unmarshal_Response_success_object:
  assumes "json_Unmarshal_Response data = Inr r"
      and "Response.Status r = ''success''"
  shows "\<exists>ms. json_parse data = Some (JObject ms) \<and>
              Response.Data r =
                (case field_member Response_fields ''data'' ms of
                   None \<Rightarrow> []
                 | Some (raw, v) \<Rightarrow> raw)"
proof -
  from assms(1) obtain v where v: "json_parse data = Some v"
    and st: "store_struct Response_fields ''Response'' v Response_zero = (r, None)"
    by (auto simp: json_Unmarshal_Response_def json_Unmarshal_def
          split: sum.splits prod.splits option.splits)
  show ?thesis
  proof (cases v)
    case JNull
    with st have "r = Response_zero" by (simp add: store_struct_def)
    with assms(2) show ?thesis by (simp add: Response_zero_def)
  next
    case (JObject ms)
    with st have "foldl (store_member Response_fields) (Response_zero, None) ms = (r, None)"
      by (simp add: store_struct_def)
    then have "Response.Data r =
        Response.Data (fst (foldl (store_member Response_fields) (Response_zero, None) ms))"
      by simp
    also have "\<dots> = (case field_member Response_fields ''data'' ms of
                   None \<Rightarrow> []
                 | Some (raw, v) \<Rightarrow> raw)"
      by (simp add: Response_Data_fold Response_zero_def split: option.split)
    finally show ?thesis using v JObject by blast
  qed (use st in \<open>simp_all add: store_struct_def\<close>)
qed

lemma Error_Message_fold_None:
  "field_member Error_fields ''message'' ms = None \<Longrightarrow>
   Message (fst (foldl (store_member Error_fields) st ms)) = Message (fst st)"
proof (induction ms rule: rev_induct)
  case Nil
  then show ?case by simp
next
  case (snoc m ms)
  then show ?case
    by (auto simp: store_member_Error_Message field_member_snoc split: if_splits)
qed

lemma Unmarshal_Error_Message_None:
  assumes "json_Unmarshal_Error data = Inr e"
      and "json_parse data = Some (JObject ms)"
      and "field_member Error_fields ''message'' ms = None"
  shows "Message e = []"
proof -
  from assms(1,2) have "fst (foldl (store_member Error_fields) (Error_zero, None) ms) = e"
    by (auto simp: json_Unmarshal_Error_def json_Unmarshal_def store_struct_def
          split: sum.splits prod.splits option.splits)
  with Error_Message_fold_None [OF assms(3), of "(Error_zero, None)"] show ?thesis
    by (simp add: Error_zero_def)
qed

lemma Unmarshal_Response_Data_sublist:
  assumes "json_parse data = Some (JObject ms)"
  shows "sublist (case field_member Response_fields ''data'' ms of
                    None \<Rightarrow> []
                  | Some (raw, v) \<Rightarrow> raw) data"
proof (cases "field_member Response_fields ''data'' ms")
  case None
  then show ?thesis by simp
next
  case (Some a)
  obtain raw v where a: "a = (raw, v)" by (cases a)
  from field_member_mem [OF Some [unfolded a]] obtain k where "(k, raw, v) \<in> set ms" ..
  with assms have "sublist raw data" by (rule json_parse_member_raw)
  with Some a show ?thesis by simp
qed

subsection \<open>An error envelope is an envelope\<close>

text \<open>
  The folded names of the fields of a struct of this client are distinct, so that a key
  selects the field of the same folded name.  A body that decodes as an \<open>Error\<close>
  decodes as a \<open>Response\<close>, to the same status, time, flags and data.
\<close>

lemma foldName_names:
  "foldName ''status'' = ''STATUS''" "foldName ''time'' = ''TIME''"
  "foldName ''flags'' = ''FLAGS''" "foldName ''data'' = ''DATA''"
  "foldName ''error_code'' = ''ERROR_CODE''" "foldName ''message'' = ''MESSAGE''"
  by code_simp+

lemma find_cong_first:
  assumes "\<And>x. x \<in> set xs \<Longrightarrow> P x \<Longrightarrow> Q x"
      and "find P xs = Some f"
      and "\<And>x. x \<in> set xs \<Longrightarrow> Q x \<Longrightarrow> Q f \<Longrightarrow> x = f"
  shows "find Q xs = Some f"
  using assms
proof (induction xs)
  case Nil
  then show ?case by simp
next
  case (Cons a xs)
  show ?case
  proof (cases "P a")
    case True
    with Cons.prems show ?thesis by auto
  next
    case False
    with Cons.prems(2) have f: "find P xs = Some f" by simp
    then have fin: "f \<in> set xs" and pf: "P f"
      by (auto simp: find_Some_iff in_set_conv_nth)
    with Cons.prems(1) have qf: "Q f" by simp
    show ?thesis
    proof (cases "Q a")
      case True
      with Cons.prems(3) [of a] qf show ?thesis by simp
    next
      case qa: False
      have "find Q xs = Some f"
        using Cons.IH [OF _ f] Cons.prems(1,3) by auto
      with qa show ?thesis by simp
    qed
  qed
qed

lemma lookup_field_fold:
  assumes "distinct (map (\<lambda>f. foldName (fst f)) fs)"
  shows "lookup_field fs key = find (\<lambda>f. foldName (fst f) = foldName key) fs"
proof (cases "find (\<lambda>f. fst f = key) fs")
  case None
  then show ?thesis by (simp add: lookup_field_def)
next
  case (Some f)
  have "find (\<lambda>f. foldName (fst f) = foldName key) fs = Some f"
  proof (rule find_cong_first [OF _ Some])
    fix x assume "x \<in> set fs" "fst x = key"
    then show "foldName (fst x) = foldName key" by simp
  next
    fix x assume x: "x \<in> set fs" "foldName (fst x) = foldName key"
      "foldName (fst f) = foldName key"
    from Some have "f \<in> set fs" by (auto simp: find_Some_iff in_set_conv_nth)
    with x assms show "x = f"
      by (metis (mono_tags, lifting) distinct_map inj_onD)
  qed
  with Some show ?thesis by (simp add: lookup_field_def)
qed

lemma lookup_Response_fields:
  "lookup_field Response_fields key =
     find (\<lambda>f. foldName (fst f) = foldName key) Response_fields"
  by (rule lookup_field_fold) (simp add: Response_fields_def foldName_names del: foldName.simps)

lemma lookup_Error_fields:
  "lookup_field Error_fields key =
     find (\<lambda>f. foldName (fst f) = foldName key) Error_fields"
  by (rule lookup_field_fold) (simp add: Error_fields_def foldName_names del: foldName.simps)


lemma store_member_Response_of:
  "fst (store_member Response_fields (Response_of e, sr) m) =
     Response_of (fst (store_member Error_fields (e, se) m)) \<and>
   (snd (store_member Error_fields (e, se) m) = None \<longrightarrow> se = None) \<and>
   (snd (store_member Error_fields (e, se) m) = None \<longrightarrow> sr = None \<longrightarrow>
      snd (store_member Response_fields (Response_of e, sr) m) = None)"
proof -
  let ?k = "foldName (fst m)"
  note defs = Response_fields_def Error_fields_def foldName_names Response_of_def
    store_string_def store_float64_def store_RawMessage_def saveError_def
  consider (status) "?k = ''STATUS''" | (time) "?k = ''TIME''" | (flags) "?k = ''FLAGS''"
    | (data) "?k = ''DATA''" | (code) "?k = ''ERROR_CODE''" | (message) "?k = ''MESSAGE''"
    | (none) "?k \<noteq> ''STATUS''" "?k \<noteq> ''TIME''" "?k \<noteq> ''FLAGS''" "?k \<noteq> ''DATA''"
        "?k \<noteq> ''ERROR_CODE''" "?k \<noteq> ''MESSAGE''"
    by blast
  then show ?thesis
  proof cases
    case status
    show ?thesis
      apply (simp only: store_member_def lookup_Response_fields lookup_Error_fields)
      using status
      apply (cases "snd (snd m)")
           apply (simp_all add: defs split: option.splits del: foldName.simps)
      done
  next
    case time
    show ?thesis
      apply (simp only: store_member_def lookup_Response_fields lookup_Error_fields)
      using time
      apply (cases "snd (snd m)")
           apply (simp_all add: defs split: option.splits del: foldName.simps)
      done
  next
    case flags
    show ?thesis
      apply (simp only: store_member_def lookup_Response_fields lookup_Error_fields)
      using flags
      apply (simp add: defs split: option.splits del: foldName.simps)
      done
  next
    case data
    show ?thesis
      apply (simp only: store_member_def lookup_Response_fields lookup_Error_fields)
      using data
      apply (simp add: defs split: option.splits del: foldName.simps)
      done
  next
    case code
    show ?thesis
      apply (simp only: store_member_def lookup_Response_fields lookup_Error_fields)
      using code
      apply (cases "snd (snd m)")
           apply (simp_all add: defs split: option.splits del: foldName.simps)
      done
  next
    case message
    show ?thesis
      apply (simp only: store_member_def lookup_Response_fields lookup_Error_fields)
      using message
      apply (cases "snd (snd m)")
           apply (simp_all add: defs split: option.splits del: foldName.simps)
      done
  next
    case none
    show ?thesis
      apply (simp only: store_member_def lookup_Response_fields lookup_Error_fields)
      using none
      apply (simp add: defs del: foldName.simps)
      done
  qed
qed

lemma foldl_Response_of:
  assumes "foldl (store_member Error_fields) (e0, None) ms = (e, None)"
  shows "foldl (store_member Response_fields) (Response_of e0, None) ms = (Response_of e, None)"
  using assms
proof (induction ms arbitrary: e rule: rev_induct)
  case Nil
  then show ?case by simp
next
  case (snoc m ms)
  obtain e1 s1 where p: "foldl (store_member Error_fields) (e0, None) ms = (e1, s1)"
    by (cases "foldl (store_member Error_fields) (e0, None) ms")
  with snoc.prems have st: "store_member Error_fields (e1, s1) m = (e, None)" by simp
  from store_member_Response_of [of e1 None m s1] st have s1: "s1 = None" by simp
  from snoc.IH [OF p [unfolded s1]]
  have r: "foldl (store_member Response_fields) (Response_of e0, None) ms =
             (Response_of e1, None)" .
  from store_member_Response_of [of e1 None m None] st s1
  have "store_member Response_fields (Response_of e1, None) m = (Response_of e, None)"
    by (cases "store_member Response_fields (Response_of e1, None) m") simp
  with r show ?case by simp
qed

lemma Error_envelope_is_envelope:
  assumes "json_Unmarshal_Error data = Inr e"
  shows "json_Unmarshal_Response data = Inr (Response_of e)"
proof -
  from assms obtain v where v: "json_parse data = Some v"
    and st: "store_struct Error_fields ''Error'' v Error_zero = (e, None)"
    by (auto simp: json_Unmarshal_Error_def json_Unmarshal_def
          split: sum.splits prod.splits option.splits)
  have z: "Response_of Error_zero = Response_zero"
    by (simp add: Response_of_def Error_zero_def Response_zero_def)
  have "store_struct Response_fields ''Response'' v Response_zero = (Response_of e, None)"
  proof (cases v)
    case JNull
    with st z show ?thesis by (simp add: store_struct_def)
  next
    case (JObject ms)
    with st have "foldl (store_member Error_fields) (Error_zero, None) ms = (e, None)"
      by (simp add: store_struct_def)
    from foldl_Response_of [OF this] JObject z show ?thesis
      by (simp add: store_struct_def)
  qed (use st in \<open>simp_all add: store_struct_def\<close>)
  with v show ?thesis
    by (simp add: json_Unmarshal_Response_def json_Unmarshal_def)
qed

section \<open>The fixtures, evaluated\<close>

text \<open>
  What the scanner makes of the bodies of the test suite, and what the decoder stores.
\<close>

lemma ParseFloat_0_123: "ParseFloat ''0.123'' = Some (123 / 1000)"
  by (simp add: ParseFloat_def isDigit_def digits_val_def byte_def Let_def)

lemma parse_body_success:
  \<open>json_parse body_success =
     Some (JObject
       [(''status'', ''"success"'', JString ''success''),
        (''time'', ''0.123'', JNumber ''0.123''),
        (''flags'', ''{}'', JObject []),
        (''data'', ''{"test": "data"}'', JObject [(''test'', ''"data"'', JString ''data'')])])\<close>
  unfolding body_success_def by code_simp

lemma parse_body_error:
  \<open>json_parse body_error =
     Some (JObject
       [(''status'', ''"error"'', JString ''error''),
        (''time'', ''0.123'', JNumber ''0.123''),
        (''flags'', ''{}'', JObject []),
        (''data'', ''{"error": "test error"}'',
           JObject [(''error'', ''"test error"'', JString ''test error'')]),
        (''error_code'', ''"test-error"'', JString ''test-error''),
        (''message'', ''"Test error message"'', JString ''Test error message'')])\<close>
  unfolding body_error_def by code_simp

lemma parse_body_sent:
  \<open>json_parse body_sent =
     Some (JObject
       [(''status'', ''"success"'', JString ''success''),
        (''data'', ''{"message_id":123,"token":"t"}'',
           JObject [(''message_id'', ''123'', JNumber ''123''),
                    (''token'', ''"t"'', JString ''t'')])])\<close>
  unfolding body_sent_def by code_simp

lemma parse_body_error_number:
  \<open>json_parse body_error_number =
     Some (JObject
       [(''status'', ''"error"'', JString ''error''),
        (''message'', ''5'', JNumber ''5'')])\<close>
  unfolding body_error_number_def by code_simp

lemma parse_body_bad_data:
  \<open>json_parse body_bad_data =
     Some (JObject
       [(''status'', ''"success"'', JString ''success''),
        (''data'', ''{"message_id":"abc"}'',
           JObject [(''message_id'', ''"abc"'', JString ''abc'')])])\<close>
  unfolding body_bad_data_def by code_simp

lemma parse_body_no_data:
  \<open>json_parse body_no_data = Some (JObject [(''status'', ''"success"'', JString ''success'')])\<close>
  unfolding body_no_data_def by code_simp

lemma parse_empty: "json_parse [] = None"
  by code_simp

lemmas store_defs =
  json_Unmarshal_def store_struct_def store_member_def lookup_field_def
  store_string_def store_float64_def store_int_def store_RawMessage_def saveError_def
  toUpper_def byte_def value_name_def

lemma Response_body_success:
  \<open>json_Unmarshal_Response body_success =
     Inr \<lparr>Response.Status = ''success'', Time = 123 / 1000, Flags = ''{}'',
          Data = ''{"test": "data"}''\<rparr>\<close>
  by (simp add: json_Unmarshal_Response_def parse_body_success store_defs Response_fields_def
        Response_zero_def ParseFloat_0_123)

lemma Error_body_success:
  \<open>json_Unmarshal_Error body_success =
     Inr \<lparr>Error.Status = ''success'', Time = 123 / 1000, Flags = ''{}'',
          Data = ''{"test": "data"}'', ErrorCode = [], Message = []\<rparr>\<close>
  by (simp add: json_Unmarshal_Error_def parse_body_success store_defs Error_fields_def
        Error_zero_def ParseFloat_0_123)

lemma Response_body_error:
  \<open>json_Unmarshal_Response body_error =
     Inr \<lparr>Response.Status = ''error'', Time = 123 / 1000, Flags = ''{}'',
          Data = ''{"error": "test error"}''\<rparr>\<close>
  by (simp add: json_Unmarshal_Response_def parse_body_error store_defs Response_fields_def
        Response_zero_def ParseFloat_0_123)

lemma Error_body_error:
  \<open>json_Unmarshal_Error body_error =
     Inr \<lparr>Error.Status = ''error'', Time = 123 / 1000, Flags = ''{}'',
          Data = ''{"error": "test error"}'', ErrorCode = ''test-error'',
          Message = ''Test error message''\<rparr>\<close>
  by (simp add: json_Unmarshal_Error_def parse_body_error store_defs Error_fields_def
        Error_zero_def ParseFloat_0_123)

lemma Response_body_sent:
  \<open>json_Unmarshal_Response body_sent =
     Inr \<lparr>Response.Status = ''success'', Time = 0, Flags = [],
          Data = ''{"message_id":123,"token":"t"}''\<rparr>\<close>
  by (simp add: json_Unmarshal_Response_def parse_body_sent store_defs Response_fields_def
        Response_zero_def)

lemma SendMessageResponse_sent:
  \<open>json_Unmarshal_SendMessageResponse ''{"message_id":123,"token":"t"}'' =
     Inr \<lparr>MessageID = 123, Token = ''t''\<rparr>\<close>
  by code_simp

lemma Response_body_error_number:
  \<open>json_Unmarshal_Response body_error_number =
     Inr \<lparr>Response.Status = ''error'', Time = 0, Flags = [], Data = []\<rparr>\<close>
  by (simp add: json_Unmarshal_Response_def parse_body_error_number store_defs
        Response_fields_def Response_zero_def)

lemma Error_body_error_number:
  \<open>json_Unmarshal_Error body_error_number =
     Inl (JSONError (UnmarshalTypeError ''number'' ''Error.message''))\<close>
  by (simp add: json_Unmarshal_Error_def parse_body_error_number store_defs
        Error_fields_def Error_zero_def)

lemma Response_body_bad_data:
  \<open>json_Unmarshal_Response body_bad_data =
     Inr \<lparr>Response.Status = ''success'', Time = 0, Flags = [],
          Data = ''{"message_id":"abc"}''\<rparr>\<close>
  by (simp add: json_Unmarshal_Response_def parse_body_bad_data store_defs
        Response_fields_def Response_zero_def)

lemma SendMessageResponse_bad_data:
  \<open>json_Unmarshal_SendMessageResponse ''{"message_id":"abc"}'' =
     Inl (JSONError (UnmarshalTypeError ''string'' ''SendMessageResponse.message_id''))\<close>
  by code_simp

lemma Response_body_no_data:
  \<open>json_Unmarshal_Response body_no_data =
     Inr \<lparr>Response.Status = ''success'', Time = 0, Flags = [], Data = []\<rparr>\<close>
  by (simp add: json_Unmarshal_Response_def parse_body_no_data store_defs
        Response_fields_def Response_zero_def)

lemma field_member_message_body_error:
  \<open>field_member Error_fields ''message''
     [(''status'', ''"error"'', JString ''error''),
        (''time'', ''0.123'', JNumber ''0.123''),
        (''flags'', ''{}'', JObject []),
        (''data'', ''{"error": "test error"}'',
           JObject [(''error'', ''"test error"'', JString ''test error'')]),
        (''error_code'', ''"test-error"'', JString ''test-error''),
        (''message'', ''"Test error message"'', JString ''Test error message'')]
   = Some (''"Test error message"'', JString ''Test error message'')\<close>
  by (simp add: field_member_def selects_def lookup_field_def Error_fields_def toUpper_def byte_def)

text \<open>
  The test server receives the request of the test client and answers it; the mock transport fails.
\<close>

lemma test_request_of:
  "request_of (test_server code b) (client test_world) MethodPost path body =
     Inr (test_request path body)"
  by (cases body)
     (simp_all add: request_of_def test_server_def test_world_def NewClient_def MethodPost_def
        http_NewRequest_def validMethod_POST test_request_def Header_Set_def Canonical_keys)

lemma test_server_answered:
  "answered (test_server code b) MethodPost path body test_world
     \<lparr>StatusCode = code, http_Response.Body = Inr b\<rparr> [test_request path body]"
  unfolding answered_def
  by (rule exI [of _ "test_request path body"])
     (simp add: test_request_of, simp add: test_server_def recording_def test_world_def)


lemma mock_transport_post:
  "post mock_transport path body test_world =
     (Inl (Errorf ''error performing request: %w'' (ErrorString ''mock transport error'')),
      test_world\<lparr>net := [test_request path body]\<rparr>)"
proof -
  have "request_of mock_transport (client test_world) MethodPost path body =
          Inr (test_request path body)"
    by (cases body)
       (simp_all add: request_of_def mock_transport_def test_server_def test_world_def
          NewClient_def MethodPost_def http_NewRequest_def validMethod_POST test_request_def
          Header_Set_def Canonical_keys)
  then show ?thesis
    by (simp add: post_def do_request_of mock_transport_def recording_def test_world_def)
qed

section \<open>The properties\<close>

text \<open>
  C1, as amended.  For every HTTP response whose status code is 200 and whose body is a
  well-formed envelope with \<^verbatim>\<open>status\<close> equal to \<^verbatim>\<open>"success"\<close>, \<open>do\<close> returns that
  envelope with a nil error, and the \<^verbatim>\<open>data\<close> field of the returned envelope is the
  bytes of the member of the body that gives \<^verbatim>\<open>data\<close> its value, a slice of the body
  as it stands and not decoded (no bytes where the body has no such member).
\<close>

theorem do_200_success:
  assumes "answered env method path body w resp n"
    and "StatusCode resp = 200"
    and "http_Response.Body resp = Inr respBody"
    and "json_Unmarshal_Response respBody = Inr r"
    and "Response.Status r = ''success''"
  shows "do env method path body w = (Inr r, w\<lparr>net := n\<rparr>) \<and>
         (\<exists>ms. json_parse respBody = Some (JObject ms) \<and>
               Response.Data r =
                 (case field_member Response_fields ''data'' ms of
                    None \<Rightarrow> []
                  | Some (raw, v) \<Rightarrow> raw)) \<and>
         sublist (Response.Data r) respBody"
proof -
  have 1: "do env method path body w = (Inr r, w\<lparr>net := n\<rparr>)"
    using assms by (simp add: do_answered StatusOK_def)
  from Unmarshal_Response_success_object [OF assms(4,5)]
  obtain ms where ms: "json_parse respBody = Some (JObject ms)"
    and d: "Response.Data r =
                 (case field_member Response_fields ''data'' ms of
                    None \<Rightarrow> []
                  | Some (raw, v) \<Rightarrow> raw)"
    by blast
  from Unmarshal_Response_Data_sublist [OF ms] d have "sublist (Response.Data r) respBody"
    by simp
  with 1 ms d show ?thesis by blast
qed

text \<open>
  The body of \<^verbatim>\<open>TestClientDo\<close>, answered with status 200: the envelope comes back, with
  its \<^verbatim>\<open>data\<close> as the server wrote it.
\<close>

theorem do_200_success_witness:
  \<open>do (test_server 200 body_success) MethodPost ''/test'' None test_world =
     (Inr \<lparr>Response.Status = ''success'', Time = 123 / 1000, Flags = ''{}'',
           Data = ''{"test": "data"}''\<rparr>,
      test_world\<lparr>net := [test_request ''/test'' None]\<rparr>)\<close>
  using do_200_success [OF test_server_answered, of 200 body_success body_success _ "''/test''" None]
    Response_body_success
  by simp

text \<open>
  C1 as stated fails at 201, a status code in the 2xx range: the body is a well-formed
  envelope with status \<^verbatim>\<open>"success"\<close>, and \<open>do\<close> returns an API error, because it
  compares the status code with 200.
\<close>

theorem do_2xx_success_counterexample:
  \<open>(200 :: int) \<le> 201 \<and> (201 :: int) < 300 \<and>
   json_Unmarshal_Response body_success =
     Inr \<lparr>Response.Status = ''success'', Time = 123 / 1000, Flags = ''{}'',
          Data = ''{"test": "data"}''\<rparr> \<and>
   do (test_server 201 body_success) MethodPost ''/test'' None test_world =
     (Inl (APIError \<lparr>Error.Status = ''success'', Time = 123 / 1000, Flags = ''{}'',
                     Data = ''{"test": "data"}'', ErrorCode = [], Message = []\<rparr>),
      test_world\<lparr>net := [test_request ''/test'' None]\<rparr>)\<close>
  by (simp add: do_answered [OF test_server_answered] Response_body_success Error_body_success
        StatusOK_def)

text \<open>
  C2.  For every HTTP response whose status code is outside the 2xx range and whose body
  parses as an error envelope, \<open>do\<close> returns a nil envelope and the API error decoded
  from the body; its \<open>Message\<close> is the string of the \<^verbatim>\<open>message\<close> member of the body,
  and is empty where the body has no such member.
\<close>

theorem do_non_2xx_APIError:
  assumes "answered env method path body w resp n"
    and "StatusCode resp < 200 \<or> 300 \<le> StatusCode resp"
    and "http_Response.Body resp = Inr respBody"
    and "json_Unmarshal_Error respBody = Inr e"
  shows "do env method path body w = (Inl (APIError e), w\<lparr>net := n\<rparr>) \<and>
         (\<forall>ms. json_parse respBody = Some (JObject ms) \<longrightarrow>
            (\<forall>raw s. field_member Error_fields ''message'' ms = Some (raw, JString s) \<longrightarrow>
               Message e = s) \<and>
            (field_member Error_fields ''message'' ms = None \<longrightarrow> Message e = []))"
proof
  from assms(2) have "StatusCode resp \<noteq> StatusOK"
    by (auto simp: StatusOK_def)
  with assms show "do env method path body w = (Inl (APIError e), w\<lparr>net := n\<rparr>)"
    by (simp add: do_answered)
  show "\<forall>ms. json_parse respBody = Some (JObject ms) \<longrightarrow>
            (\<forall>raw s. field_member Error_fields ''message'' ms = Some (raw, JString s) \<longrightarrow>
               Message e = s) \<and>
            (field_member Error_fields ''message'' ms = None \<longrightarrow> Message e = [])"
    using Unmarshal_Error_Message [OF assms(4)] Unmarshal_Error_Message_None [OF assms(4)]
    by blast
qed

text \<open>
  The body of \<^verbatim>\<open>TestClientDoHTTPError\<close>, answered with status 500.
\<close>

theorem do_non_2xx_APIError_witness:
  \<open>do (test_server 500 body_error) MethodPost ''/test'' None test_world =
     (Inl (APIError \<lparr>Error.Status = ''error'', Time = 123 / 1000, Flags = ''{}'',
                     Data = ''{"error": "test error"}'', ErrorCode = ''test-error'',
                     Message = ''Test error message''\<rparr>),
      test_world\<lparr>net := [test_request ''/test'' None]\<rparr>) \<and>
   Message \<lparr>Error.Status = ''error'', Time = 123 / 1000, Flags = ''{}'',
                     Data = ''{"error": "test error"}'', ErrorCode = ''test-error'',
                     Message = ''Test error message''\<rparr> = ''Test error message''\<close>
  using do_non_2xx_APIError [OF test_server_answered, of 500 body_error body_error _ "''/test''" None]
    Error_body_error parse_body_error field_member_message_body_error
  by simp

text \<open>
  Whatever the status code, a body that decodes as an error envelope with a status other
  than \<^verbatim>\<open>"success"\<close> comes back as that API error.
\<close>

lemma do_2xx_error_envelope:
  assumes "answered env method path body w resp n"
    and "http_Response.Body resp = Inr respBody"
    and "json_Unmarshal_Error respBody = Inr e"
    and "Error.Status e \<noteq> ''success''"
  shows "do env method path body w = (Inl (APIError e), w\<lparr>net := n\<rparr>)"
  using assms Error_envelope_is_envelope [OF assms(3)]
  by (simp add: do_answered Response_of_def)

text \<open>
  C3, as amended.  For every HTTP response whose status code is in the 2xx range and
  whose body is a well-formed envelope with \<^verbatim>\<open>status\<close> not equal to \<^verbatim>\<open>"success"\<close>,
  \<open>do\<close> never returns a success: it returns a nil envelope and, where the body also
  decodes as an error envelope, the API error decoded from the body; where it does not,
  the error of that decoding, wrapped.
\<close>

theorem do_2xx_not_success:
  assumes "answered env method path body w resp n"
    and "200 \<le> StatusCode resp \<and> StatusCode resp < 300"
    and "http_Response.Body resp = Inr respBody"
    and "json_Unmarshal_Response respBody = Inr r"
    and "Response.Status r \<noteq> ''success''"
  shows "(\<forall>e. json_Unmarshal_Error respBody = Inr e \<longrightarrow>
            do env method path body w = (Inl (APIError e), w\<lparr>net := n\<rparr>)) \<and>
         (\<forall>err. json_Unmarshal_Error respBody = Inl err \<longrightarrow>
            do env method path body w =
              (Inl (Errorf ''error unmarshaling error response: %w'' err), w\<lparr>net := n\<rparr>)) \<and>
         (\<exists>err. fst (do env method path body w) = Inl err)"
  using assms
  by (auto simp: do_answered split: sum.splits)

text \<open>
  The body of \<^verbatim>\<open>TestClientDoError\<close>, answered with status 200.
\<close>

theorem do_2xx_not_success_witness:
  \<open>do (test_server 200 body_error) MethodPost ''/test'' None test_world =
     (Inl (APIError \<lparr>Error.Status = ''error'', Time = 123 / 1000, Flags = ''{}'',
                     Data = ''{"error": "test error"}'', ErrorCode = ''test-error'',
                     Message = ''Test error message''\<rparr>),
      test_world\<lparr>net := [test_request ''/test'' None]\<rparr>)\<close>
  using do_2xx_not_success [OF test_server_answered, of 200 body_error body_error _ "''/test''" None]
    Response_body_error Error_body_error
  by simp

text \<open>
  C3 as stated fails for a body that is a well-formed envelope with status
  \<^verbatim>\<open>"error"\<close> and a \<^verbatim>\<open>message\<close> that is a number: it decodes as a \<^verbatim>\<open>Response\<close>, not as
  an \<^verbatim>\<open>Error\<close>, and \<open>do\<close> returns the wrapped decoding error, which is no API error.
\<close>

theorem do_2xx_not_success_counterexample:
  \<open>json_Unmarshal_Response body_error_number =
     Inr \<lparr>Response.Status = ''error'', Time = 0, Flags = [], Data = []\<rparr> \<and>
   do (test_server 200 body_error_number) MethodPost ''/test'' None test_world =
     (Inl (Errorf ''error unmarshaling error response: %w''
            (JSONError (UnmarshalTypeError ''number'' ''Error.message''))),
      test_world\<lparr>net := [test_request ''/test'' None]\<rparr>)\<close>
  by (simp add: do_answered [OF test_server_answered] Response_body_error_number
        Error_body_error_number StatusOK_def)

text \<open>
  C4.  For every endpoint method, if the call of the transport wrapper succeeds and the
  \<^verbatim>\<open>data\<close> field of the envelope does not unmarshal into the response type of the
  method, the method returns a nil result and the decoding error wrapped as a
  response-parsing error.
\<close>

theorem endpoint_data_unmarshal_error:
  "(\<forall>resp w' err.
      post env ''/send/message'' (Some (Body_SendMessageRequest mreq)) w = (Inr resp, w') \<longrightarrow>
      json_Unmarshal_SendMessageResponse (Response.Data resp) = Inl err \<longrightarrow>
      SendMessage env mreq w = (Inl (Errorf ''error unmarshaling send response: %w'' err), w')) \<and>
   (\<forall>resp w' err.
      post env ''/send/raw'' (Some (Body_SendRawRequest rreq)) w = (Inr resp, w') \<longrightarrow>
      json_Unmarshal_SendMessageResponse (Response.Data resp) = Inl err \<longrightarrow>
      SendRaw env rreq w = (Inl (Errorf ''error unmarshaling send response: %w'' err), w')) \<and>
   (\<forall>resp w' err.
      post env ''/messages/message'' (Some (Body_id id')) w = (Inr resp, w') \<longrightarrow>
      json_Unmarshal_Message env (Response.Data resp) = Inl err \<longrightarrow>
      GetMessage env id' w = (Inl (Errorf ''error unmarshaling response: %w'' err), w')) \<and>
   (\<forall>resp w' err.
      post env ''/messages/deliveries'' (Some (Body_id id')) w = (Inr resp, w') \<longrightarrow>
      json_Unmarshal_Deliveries env (Response.Data resp) = Inl err \<longrightarrow>
      GetMessageDeliveries env id' w =
        (Inl (Errorf ''error unmarshaling response: %w'' err), w'))"
  by (simp add: SendMessage_def SendRaw_def GetMessage_def GetMessageDeliveries_def)

text \<open>
  A message identifier that is a string, for the two sending methods; no data at all,
  for the two fetching methods.
\<close>

theorem endpoint_data_unmarshal_error_witness:
  \<open>SendMessage (test_server 200 body_bad_data) (Some example_request) test_world =
     (Inl (Errorf ''error unmarshaling send response: %w''
            (JSONError (UnmarshalTypeError ''string'' ''SendMessageResponse.message_id''))),
      test_world\<lparr>net := [test_request ''/send/message''
                               (Some (Body_SendMessageRequest (Some example_request)))]\<rparr>) \<and>
   SendRaw (test_server 200 body_bad_data) (Some example_raw_request) test_world =
     (Inl (Errorf ''error unmarshaling send response: %w''
            (JSONError (UnmarshalTypeError ''string'' ''SendMessageResponse.message_id''))),
      test_world\<lparr>net := [test_request ''/send/raw''
                               (Some (Body_SendRawRequest (Some example_raw_request)))]\<rparr>) \<and>
   GetMessage (test_server 200 body_no_data) 123 test_world =
     (Inl (Errorf ''error unmarshaling response: %w'' (JSONError SyntaxError)),
      test_world\<lparr>net := [test_request ''/messages/message'' (Some (Body_id 123))]\<rparr>) \<and>
   GetMessageDeliveries (test_server 200 body_no_data) 123 test_world =
     (Inl (Errorf ''error unmarshaling response: %w'' (JSONError SyntaxError)),
      test_world\<lparr>net := [test_request ''/messages/deliveries'' (Some (Body_id 123))]\<rparr>)\<close>
proof -
  have bad: "post (test_server 200 body_bad_data) path body test_world =
      (Inr \<lparr>Response.Status = ''success'', Time = 0, Flags = [],
            Data = ''{\"message_id\":\"abc\"}''\<rparr>,
       test_world\<lparr>net := [test_request path body]\<rparr>)" for path body
    by (simp add: post_def do_answered [OF test_server_answered] Response_body_bad_data
          StatusOK_def)
  have none: "post (test_server 200 body_no_data) path body test_world =
      (Inr \<lparr>Response.Status = ''success'', Time = 0, Flags = [], Data = []\<rparr>,
       test_world\<lparr>net := [test_request path body]\<rparr>)" for path body
    by (simp add: post_def do_answered [OF test_server_answered] Response_body_no_data
          StatusOK_def)
  have m: "json_Unmarshal_Message (test_server 200 body_no_data) [] = Inl (JSONError SyntaxError)"
    and d: "json_Unmarshal_Deliveries (test_server 200 body_no_data) [] =
              Inl (JSONError SyntaxError)"
    by (simp_all add: test_server_def parse_empty)
  note a = endpoint_data_unmarshal_error [of "test_server 200 body_bad_data"
      "Some example_request" test_world "Some example_raw_request" 123]
  note b = endpoint_data_unmarshal_error [of "test_server 200 body_no_data"
      "Some example_request" test_world "Some example_raw_request" 123]
  show ?thesis
    using a b bad none m d SendMessageResponse_bad_data
    by simp
qed

text \<open>
  C5.  \<open>SendMessage\<close>, when the server replies with status 200 and the body
  \<^verbatim>\<open>{"status":"success","data":{"message_id":123,"token":"t"}}\<close>, returns a response with
  message identifier 123 and token \<^verbatim>\<open>"t"\<close>, and a nil error; whatever the request.
\<close>

theorem SendMessage_example:
  assumes "answered env MethodPost ''/send/message''
             (Some (Body_SendMessageRequest (Some req))) w resp n"
    and "StatusCode resp = 200"
    and "http_Response.Body resp = Inr body_sent"
  shows "SendMessage env (Some req) w = (Inr \<lparr>MessageID = 123, Token = ''t''\<rparr>, w\<lparr>net := n\<rparr>)"
proof -
  have "post env ''/send/message'' (Some (Body_SendMessageRequest (Some req))) w =
          (Inr \<lparr>Response.Status = ''success'', Time = 0, Flags = [],
                Data = ''{\"message_id\":123,\"token\":\"t\"}''\<rparr>, w\<lparr>net := n\<rparr>)"
    using assms by (simp add: post_def do_answered StatusOK_def Response_body_sent)
  then show ?thesis
    by (simp add: SendMessage_def SendMessageResponse_sent)
qed

text \<open>
  The request of the example, to one recipient from one sender.
\<close>

theorem SendMessage_example_witness:
  \<open>To example_request = [''a@b.com''] \<and> From example_request = ''c@d.com'' \<and>
   SendMessage (test_server 200 body_sent) (Some example_request) test_world =
     (Inr \<lparr>MessageID = 123, Token = ''t''\<rparr>,
      test_world\<lparr>net := [test_request ''/send/message''
                               (Some (Body_SendMessageRequest (Some example_request)))]\<rparr>)\<close>
  using SendMessage_example [OF test_server_answered, of 200 body_sent example_request]
  by (simp add: example_request_def)

text \<open>
  C6.  For every endpoint method, whenever the call of the transport wrapper returns an
  error, the method returns a nil result and that very error.
\<close>

theorem endpoint_propagates_error:
  "(\<forall>err w'.
      post env ''/send/message'' (Some (Body_SendMessageRequest mreq)) w = (Inl err, w') \<longrightarrow>
      SendMessage env mreq w = (Inl err, w')) \<and>
   (\<forall>err w'.
      post env ''/send/raw'' (Some (Body_SendRawRequest rreq)) w = (Inl err, w') \<longrightarrow>
      SendRaw env rreq w = (Inl err, w')) \<and>
   (\<forall>err w'.
      post env ''/messages/message'' (Some (Body_id id')) w = (Inl err, w') \<longrightarrow>
      GetMessage env id' w = (Inl err, w')) \<and>
   (\<forall>err w'.
      post env ''/messages/deliveries'' (Some (Body_id id')) w = (Inl err, w') \<longrightarrow>
      GetMessageDeliveries env id' w = (Inl err, w'))"
  by (simp add: SendMessage_def SendRaw_def GetMessage_def GetMessageDeliveries_def)

text \<open>
  The transport of \<^verbatim>\<open>TestClientDoHTTPClientError\<close>, under each of the four methods.
\<close>

theorem endpoint_propagates_error_witness:
  \<open>SendMessage mock_transport (Some example_request) test_world =
     (Inl (Errorf ''error performing request: %w'' (ErrorString ''mock transport error'')),
      test_world\<lparr>net := [test_request ''/send/message''
                               (Some (Body_SendMessageRequest (Some example_request)))]\<rparr>) \<and>
   SendRaw mock_transport (Some example_raw_request) test_world =
     (Inl (Errorf ''error performing request: %w'' (ErrorString ''mock transport error'')),
      test_world\<lparr>net := [test_request ''/send/raw''
                               (Some (Body_SendRawRequest (Some example_raw_request)))]\<rparr>) \<and>
   GetMessage mock_transport 123 test_world =
     (Inl (Errorf ''error performing request: %w'' (ErrorString ''mock transport error'')),
      test_world\<lparr>net := [test_request ''/messages/message'' (Some (Body_id 123))]\<rparr>) \<and>
   GetMessageDeliveries mock_transport 123 test_world =
     (Inl (Errorf ''error performing request: %w'' (ErrorString ''mock transport error'')),
      test_world\<lparr>net := [test_request ''/messages/deliveries'' (Some (Body_id 123))]\<rparr>)\<close>
  using endpoint_propagates_error [of mock_transport "Some example_request" test_world
      "Some example_raw_request" 123]
  by (simp add: mock_transport_post)

text \<open>
  C7.  Every request that \<open>do\<close> hands to the transport carries exactly three headers:
  \<^verbatim>\<open>Content-Type: application/json\<close>, \<^verbatim>\<open>Accept: application/json\<close> and the API key of
  the client under \<^verbatim>\<open>X-Server-API-Key\<close>.  A call of \<open>do\<close> sends at most one request.
\<close>

theorem do_request_headers:
  assumes "http_Do env = recording reply"
  shows "net (snd (do env method path body w)) = net w \<or>
         (\<exists>req. net (snd (do env method path body w)) = net w @ [req] \<and>
            Header req = [''Content-Type'' \<mapsto> [''application/json''],
                          ''Accept'' \<mapsto> [''application/json''],
                          ''X-Server-Api-Key'' \<mapsto> [APIKey (client w)]] \<and>
            Header_Get (Header req) ''Content-Type'' = ''application/json'' \<and>
            Header_Get (Header req) ''Accept'' = ''application/json'' \<and>
            Header_Get (Header req) ''X-Server-API-Key'' = APIKey (client w))"
proof (cases "request_of env (client w) method path body")
  case (Inl err)
  then show ?thesis by (simp add: do_recording [OF assms])
next
  case (Inr req)
  then have "net (snd (do env method path body w)) = net w @ [req]"
    by (simp add: do_recording [OF assms])
  moreover have "Header req = [''Content-Type'' \<mapsto> [''application/json''],
                          ''Accept'' \<mapsto> [''application/json''],
                          ''X-Server-Api-Key'' \<mapsto> [APIKey (client w)]]"
    using Inr by (rule request_of_Inr)
  ultimately show ?thesis
    by (simp add: Header_Get_def Canonical_keys)
qed

text \<open>
  The request that the test server sees.
\<close>

theorem do_request_headers_witness:
  \<open>http_Do (test_server 200 body_success) =
     recording (\<lambda>seen req. Inr \<lparr>StatusCode = 200, http_Response.Body = Inr body_success\<rparr>) \<and>
   net (snd (do (test_server 200 body_success) MethodPost ''/test'' None test_world)) =
     [test_request ''/test'' None] \<and>
   Header (test_request ''/test'' None) =
     [''Content-Type'' \<mapsto> [''application/json''],
      ''Accept'' \<mapsto> [''application/json''],
      ''X-Server-Api-Key'' \<mapsto> [''test-api-key'']] \<and>
   Header_Get (Header (test_request ''/test'' None)) ''X-Server-API-Key'' = ''test-api-key''\<close>
proof -
  have h: "http_Do (test_server 200 body_success) =
     recording (\<lambda>seen req. Inr \<lparr>StatusCode = 200, http_Response.Body = Inr body_success\<rparr>)"
    by (simp add: test_server_def)
  have n: "net (snd (do (test_server 200 body_success) MethodPost ''/test'' None test_world)) =
     [test_request ''/test'' None]"
    by (simp add: do_answered [OF test_server_answered] Response_body_success StatusOK_def)
  from do_request_headers [OF h, of MethodPost "''/test''" None test_world] n
  show ?thesis
    by (auto simp: h test_world_def NewClient_def)
qed



text \<open>
  C9.  No operation changes the client: after \<open>do\<close>, \<open>post\<close> and each endpoint
  method, whether they succeed or fail, the client in memory, hence its base URL, its
  API key and its HTTP client, is what it was before.
\<close>

theorem client_unchanged:
  "client (snd (do env method path body w)) = client w \<and>
   client (snd (post env path body w)) = client w \<and>
   client (snd (GetMessage env' id' w)) = client w \<and>
   client (snd (GetMessageDeliveries env' id' w)) = client w \<and>
   client (snd (SendMessage env' mreq w)) = client w \<and>
   client (snd (SendRaw env' rreq w)) = client w"
  by (simp add: do_client post_client GetMessage_client GetMessageDeliveries_client
        SendMessage_client SendRaw_client)

text \<open>
  C10.  Every envelope that \<open>do\<close> or \<open>post\<close> returns with a nil error has the status
  \<^verbatim>\<open>"success"\<close>.
\<close>

theorem do_Inr_Status_success:
  "(do env method path body w = (Inr r, w') \<longrightarrow> Response.Status r = ''success'') \<and>
   (post env path body w = (Inr r, w') \<longrightarrow> Response.Status r = ''success'')"
  by (auto simp: post_def dest: do_Inr_success)

text \<open>
  The body of \<^verbatim>\<open>TestClientDo\<close> again.
\<close>

theorem do_Inr_Status_success_witness:
  \<open>post (test_server 200 body_success) ''/test'' None test_world =
     (Inr \<lparr>Response.Status = ''success'', Time = 123 / 1000, Flags = ''{}'',
           Data = ''{"test": "data"}''\<rparr>,
      test_world\<lparr>net := [test_request ''/test'' None]\<rparr>) \<and>
   Response.Status \<lparr>Response.Status = ''success'', Time = 123 / 1000, Flags = ''{}'',
           Data = ''{"test": "data"}''\<rparr> = ''success''\<close>
  using do_Inr_Status_success [of "test_server 200 body_success" MethodPost "''/test''" None test_world]
  by (simp add: post_def do_answered [OF test_server_answered] Response_body_success StatusOK_def)

end
